theory Spec2Isabelle
  imports Main "HOL-Library.AList" "HOL-Library.Char_ord" "HOL-Library.List_Lexorder"
begin

section \<open>A segmented write-ahead log: the writer and reader of wal.go, the recovery of recover.go\<close>

text \<open>
  The log lives in one directory: segment files named by their decimal index and a
  sidecar file \<^verbatim>\<open>tags\<close>. The Go code works on that directory through system calls,
  each of which may fail. The embedding passes the directory explicitly as a value of
  type \<open>disk\<close>; every Go function that touches the directory takes the disk and returns
  the disk it leaves behind. A Go \<^verbatim>\<open>error\<close> result is an \<open>error option\<close> (\<open>None\<close> is
  \<^verbatim>\<open>nil\<close>), a result with a value is \<open>error + 'a\<close>.

  Integers are Go's \<^verbatim>\<open>int\<close> and \<^verbatim>\<open>int64\<close>, modelled as unbounded \<open>int\<close>: the values
  are segment indices, byte offsets and file sizes, far from \<open>2^63\<close>. Byte strings are
  \<open>string\<close> (a list of 8-bit characters). The mutex of the writer, the sync rate and the
  path strings \<^verbatim>\<open>root\<close> and \<^verbatim>\<open>current\<close> are left out: the model is sequential, works
  on a single directory, and the path of segment \<open>i\<close> is determined by \<open>i\<close>.
\<close>

subsection \<open>Errors, positions, options\<close>

datatype error =
    EOF               \<comment> \<open>\<^verbatim>\<open>io.EOF\<close>\<close>
  | ErrNoSegments     \<comment> \<open>\<^verbatim>\<open>ErrNoSegments\<close> of wal.go\<close>
  | NotExist          \<comment> \<open>an error for which \<^verbatim>\<open>os.IsNotExist\<close> holds\<close>
  | JSONError         \<comment> \<open>a decoding error of encoding/json other than \<^verbatim>\<open>io.EOF\<close>\<close>
  | ChecksumError     \<comment> \<open>checksum or framing corruption found by a segment reader\<close>
  | IOError nat       \<comment> \<open>any other failure of a system call, with its errno\<close>

record Position =
  Segment :: int
  Offset :: int

definition None_pos :: "Position \<Rightarrow> bool" where
  "None_pos p = (Segment p = -1)"

record WriteOptions =
  SegmentSize :: int
  MaxSegments :: int
  SegmentTTL :: int
  SyncRate :: int

definition MaxSegmentSize :: int where
  "MaxSegmentSize = 16 * (1024 * 1024)"

definition DefaultWriteOptions :: WriteOptions where
  "DefaultWriteOptions =
     \<lparr>SegmentSize = MaxSegmentSize, MaxSegments = 10, SegmentTTL = 0, SyncRate = 0\<rparr>"

definition averageOverhead :: int where
  "averageOverhead = 4 + 1 + 2"

subsection \<open>The directory\<close>

datatype rectype = dataType | tagType

text \<open>
  A segment file is a sequence of framed records and closing sentinels. \<open>BadRec\<close> is a
  record that can be read in full and whose checksum does not match.
\<close>

datatype item = Rec rectype string | BadRec string | Closing

record segfile =
  items :: "item list"
  modTime :: int

text \<open>
  The content of the \<^verbatim>\<open>tags\<close> file as encoding/json sees it: a file of length zero, a
  document that decodes into a \<^verbatim>\<open>tagCache\<close>, or bytes that do not decode. \<open>TagsJSON c\<close> is
  a document that decodes into the map \<open>map_of c\<close>: the names are the decoded keys of the
  JSON object, and the first pair with a name is the map's entry for it.
\<close>

datatype tagsdoc = TagsEmpty | TagsJSON "(string \<times> Position) list" | TagsInvalid

datatype syscall =
    Mkdir | OpenDir | Readdir
  | CreateTags | OpenTags | DecodeTags
  | TruncateTags | SeekTags | EncodeTags "(string \<times> Position) list" | SyncTags
  | OpenSegW int | AppendSeg int rectype string | CloseSegW int
  | OpenSegR int | SeekSegR int int | CloseSegR int
  | Stat int | Remove int

text \<open>
  \<open>segs\<close> lists the segment files in the order \<^verbatim>\<open>Readdirnames\<close> returns them, each under
  its index. \<open>trace\<close> is the sequence of system calls made so far, and \<open>faults\<close> says
  which calls fail for a reason of the environment: the \<open>k\<close>-th call of the run fails
  with errno \<open>n\<close> when \<open>faults k = Some n\<close>. \<open>clock\<close> is what \<^verbatim>\<open>time.Now()\<close> returns.
\<close>

record disk =
  dirExists :: bool
  segs :: "(int \<times> segfile) list"
  tagsFile :: "tagsdoc option"
  clock :: int
  trace :: "syscall list"
  faults :: "nat \<Rightarrow> nat option"

definition sys :: "syscall \<Rightarrow> disk \<Rightarrow> error option \<times> disk" where
  "sys c d = (map_option IOError (faults d (length (trace d))), d\<lparr>trace := trace d @ [c]\<rparr>)"

definition os_Mkdir :: "disk \<Rightarrow> error option \<times> disk" where
  "os_Mkdir d =
     (case sys Mkdir d of
        (Some e, d1) \<Rightarrow> (Some e, d1)
      | (None, d1) \<Rightarrow> (None, d1\<lparr>dirExists := True\<rparr>))"

definition os_Stat :: "int \<Rightarrow> disk \<Rightarrow> (error + int) \<times> disk" where
  "os_Stat i d =
     (case sys (Stat i) d of
        (Some e, d1) \<Rightarrow> (Inl e, d1)
      | (None, d1) \<Rightarrow>
          (case map_of (segs d1) i of
             None \<Rightarrow> (Inl NotExist, d1)
           | Some f \<Rightarrow> (Inr (modTime f), d1)))"

definition os_Remove :: "int \<Rightarrow> disk \<Rightarrow> error option \<times> disk" where
  "os_Remove i d =
     (case sys (Remove i) d of
        (Some e, d1) \<Rightarrow> (Some e, d1)
      | (None, d1) \<Rightarrow>
          (case map_of (segs d1) i of
             None \<Rightarrow> (Some NotExist, d1)
           | Some f \<Rightarrow> (None, d1\<lparr>segs := AList.delete i (segs d1)\<rparr>)))"

subsection \<open>Segment writer\<close>

text \<open>
  Modelled from the spec: segment.go, with \<^verbatim>\<open>SegmentWriter\<close>, \<^verbatim>\<open>SegmentReader\<close> and
  \<^verbatim>\<open>closingMagic\<close>, is not among the sources. Section 4.1 gives the framing (7 bytes of
  header before the payload), section 4.2 the writer: it tracks offset and size
  incrementally, an append succeeds or reports an error (wal.go does not use the offset
  it returns), a clean close appends the closing sentinel, and a writer that reopens a
  segment resumes after its content. The spec does not give the sentinel's length;
  \<open>closingMagicLen\<close> stands for it, and nothing below depends on its value beyond its
  being positive. An append through a writer whose file has been removed leaves the
  directory as it is: the bytes go to a file that has no name any more.
\<close>

definition closingMagicLen :: int where
  "closingMagicLen = 8"

fun item_size :: "item \<Rightarrow> int" where
  "item_size (Rec t p) = 7 + int (length p)"
| "item_size (BadRec p) = 7 + int (length p)"
| "item_size Closing = closingMagicLen"

definition file_size :: "segfile \<Rightarrow> int" where
  "file_size f = sum_list (map item_size (items f))"

record SegmentWriter =
  sw_index :: int
  sw_size :: int
  sw_pos :: int

definition append_item :: "int \<Rightarrow> item \<Rightarrow> disk \<Rightarrow> disk" where
  "append_item i x d =
     (case map_of (segs d) i of
        None \<Rightarrow> d
      | Some f \<Rightarrow> d\<lparr>segs := AList.update i (f\<lparr>items := items f @ [x], modTime := clock d\<rparr>) (segs d)\<rparr>)"

text \<open>Modelled from the spec: \<^verbatim>\<open>NewSegmentWriter\<close> (segment.go is missing), section 4.2 and 4.4.\<close>

definition NewSegmentWriter :: "int \<Rightarrow> disk \<Rightarrow> (error + SegmentWriter) \<times> disk" where
  "NewSegmentWriter i d =
     (case sys (OpenSegW i) d of
        (Some e, d1) \<Rightarrow> (Inl e, d1)
      | (None, d1) \<Rightarrow>
          (case map_of (segs d1) i of
             None \<Rightarrow>
               (Inr \<lparr>sw_index = i, sw_size = 0, sw_pos = 0\<rparr>,
                d1\<lparr>segs := segs d1 @ [(i, \<lparr>items = [], modTime = clock d1\<rparr>)]\<rparr>)
           | Some f \<Rightarrow>
               (Inr \<lparr>sw_index = i, sw_size = file_size f, sw_pos = file_size f\<rparr>, d1)))"

text \<open>Modelled from the spec: \<^verbatim>\<open>SegmentWriter.Write\<close> and \<^verbatim>\<open>SegmentWriter.WriteTag\<close>.\<close>

definition seg_append :: "rectype \<Rightarrow> SegmentWriter \<Rightarrow> string \<Rightarrow> disk \<Rightarrow> error option \<times> SegmentWriter \<times> disk" where
  "seg_append t s p d =
     (case sys (AppendSeg (sw_index s) t p) d of
        (Some e, d1) \<Rightarrow> (Some e, s, d1)
      | (None, d1) \<Rightarrow>
          (None,
           s\<lparr>sw_size := sw_size s + item_size (Rec t p), sw_pos := sw_pos s + item_size (Rec t p)\<rparr>,
           append_item (sw_index s) (Rec t p) d1))"

definition SegmentWriter_Write :: "SegmentWriter \<Rightarrow> string \<Rightarrow> disk \<Rightarrow> error option \<times> SegmentWriter \<times> disk" where
  "SegmentWriter_Write = seg_append dataType"

definition SegmentWriter_WriteTag :: "SegmentWriter \<Rightarrow> string \<Rightarrow> disk \<Rightarrow> error option \<times> SegmentWriter \<times> disk" where
  "SegmentWriter_WriteTag = seg_append tagType"

text \<open>Modelled from the spec: \<^verbatim>\<open>SegmentWriter.Close\<close>, which appends the closing sentinel.\<close>

definition SegmentWriter_Close :: "SegmentWriter \<Rightarrow> disk \<Rightarrow> error option \<times> disk" where
  "SegmentWriter_Close s d =
     (case sys (CloseSegW (sw_index s)) d of
        (Some e, d1) \<Rightarrow> (Some e, d1)
      | (None, d1) \<Rightarrow> (None, append_item (sw_index s) Closing d1))"

subsection \<open>Log writer\<close>

record WALWriter =
  w_opts :: WriteOptions
  w_first :: int
  w_index :: int
  w_segment :: SegmentWriter
  w_cache :: "(string \<times> Position) list"

text \<open>
  \<^verbatim>\<open>rangeSegments\<close>: the loop over the directory's names keeps the least and the greatest
  name that \<^verbatim>\<open>strconv.Atoi\<close> parses; \<open>-1\<close> means none seen. The names that do not
  parse are skipped by the loop and are not part of \<open>segs\<close>.
\<close>

fun rangeLoop :: "int list \<Rightarrow> int \<times> int \<Rightarrow> int \<times> int" where
  "rangeLoop [] (first, last') = (first, last')"
| "rangeLoop (i # files) (first, last') =
     rangeLoop files
       (if first = -1 \<or> i < first then i else first,
        if last' = -1 \<or> i > last' then i else last')"

definition rangeSegments :: "disk \<Rightarrow> (error + int \<times> int) \<times> disk" where
  "rangeSegments d =
     (case sys OpenDir d of
        (Some e, d1) \<Rightarrow> (Inl e, d1)
      | (None, d1) \<Rightarrow>
          if \<not> dirExists d1 then (Inl NotExist, d1)
          else (case sys Readdir d1 of
                  (Some e, d2) \<Rightarrow> (Inl e, d2)
                | (None, d2) \<Rightarrow> (Inr (rangeLoop (map fst (segs d2)) (-1, -1)), d2)))"

definition NewWithOptions :: "WriteOptions \<Rightarrow> disk \<Rightarrow> (error + WALWriter) \<times> disk" where
  "NewWithOptions opts d =
     (case os_Mkdir d of
        (Some e, d1) \<Rightarrow> (Inl e, d1)
      | (None, d1) \<Rightarrow>
     (case rangeSegments d1 of
        (Inl e, d2) \<Rightarrow> (Inl e, d2)
      | (Inr (first0, last0), d2) \<Rightarrow>
     (let last' = (if last0 = -1 then 0 else last0);
          first = (if first0 = -1 then 0 else first0)
      in
     (case sys CreateTags d2 of
        (Some e, d3) \<Rightarrow> (Inl e, d3)
      | (None, d3) \<Rightarrow>
     (case NewSegmentWriter last' (d3\<lparr>tagsFile := Some TagsEmpty\<rparr>) of
        (Inl e, d4) \<Rightarrow> (Inl e, d4)
      | (Inr seg, d4) \<Rightarrow>
          (Inr \<lparr>w_opts = opts, w_first = first, w_index = last', w_segment = seg, w_cache = []\<rparr>,
           d4))))))"

definition New :: "disk \<Rightarrow> (error + WALWriter) \<times> disk" where
  "New d = NewWithOptions DefaultWriteOptions d"

definition rotateSegment :: "WALWriter \<Rightarrow> disk \<Rightarrow> error option \<times> WALWriter \<times> disk" where
  "rotateSegment wal d =
     (case SegmentWriter_Close (w_segment wal) d of
        (Some e, d1) \<Rightarrow> (Some e, wal, d1)
      | (None, d1) \<Rightarrow>
          (let wal1 = wal\<lparr>w_index := w_index wal + 1\<rparr> in
           (case NewSegmentWriter (w_index wal1) d1 of
              (Inl e, d2) \<Rightarrow> (Some e, wal1, d2)
            | (Inr seg, d2) \<Rightarrow> (None, wal1\<lparr>w_segment := seg\<rparr>, d2))))"

text \<open>
  What \<^verbatim>\<open>json.Encoder.Encode\<close> writes for the cache, a \<^verbatim>\<open>map[string]Position\<close>. encoding/json
  (Go's standard library) writes the keys of a map in the byte order of the keys, and
  writes a string with every byte that does not begin a valid UTF-8 sequence replaced by
  U+FFFD; all other escapes it uses decode to the bytes they stand for.

  \<open>accept\<close> is the table of unicode/utf8: for a leading byte, the length of the sequence
  and the range of its second byte. \<open>rune_len s\<close> is the length of the valid sequence at
  the head of \<open>s\<close>, and \<open>0\<close> when there is none (\<^verbatim>\<open>utf8.DecodeRuneInString\<close> then returns
  \<^verbatim>\<open>RuneError\<close> with size 1).
\<close>

definition accept :: "nat \<Rightarrow> (nat \<times> nat \<times> nat) option" where
  "accept b =
     (if 0xC2 \<le> b \<and> b \<le> 0xDF then Some (2, 0x80, 0xBF)
      else if b = 0xE0 then Some (3, 0xA0, 0xBF)
      else if 0xE1 \<le> b \<and> b \<le> 0xEC then Some (3, 0x80, 0xBF)
      else if b = 0xED then Some (3, 0x80, 0x9F)
      else if 0xEE \<le> b \<and> b \<le> 0xEF then Some (3, 0x80, 0xBF)
      else if b = 0xF0 then Some (4, 0x90, 0xBF)
      else if 0xF1 \<le> b \<and> b \<le> 0xF3 then Some (4, 0x80, 0xBF)
      else if b = 0xF4 then Some (4, 0x80, 0x8F)
      else None)"

definition between :: "nat \<Rightarrow> nat \<Rightarrow> char \<Rightarrow> bool" where
  "between lo hi c = (lo \<le> of_char c \<and> of_char c \<le> hi)"

definition rune_len :: "string \<Rightarrow> nat" where
  "rune_len s =
     (case s of
        [] \<Rightarrow> 0
      | c # t \<Rightarrow>
          if (of_char c :: nat) < 0x80 then 1
          else (case accept (of_char c) of
                  None \<Rightarrow> 0
                | Some (n, lo, hi) \<Rightarrow>
                    if n - 1 \<le> length t \<and> between lo hi (hd t)
                       \<and> list_all (between 0x80 0xBF) (take (n - 2) (tl t))
                    then n else 0))"

text \<open>The UTF-8 encoding of U+FFFD.\<close>

definition RuneError :: string where
  "RuneError = [CHR 0xEF, CHR 0xBF, CHR 0xBD]"

text \<open>A string as it is read back from the document the encoder writes it into.\<close>

fun toValidUTF8 :: "string \<Rightarrow> string" where
  "toValidUTF8 [] = []"
| "toValidUTF8 (c # t) =
     (if rune_len (c # t) = 0 then RuneError @ toValidUTF8 t
      else take (rune_len (c # t)) (c # t) @ toValidUTF8 (drop (rune_len (c # t) - 1) t))"


text \<open>
  The cache that the written document decodes into. The list \<open>cache\<close> stands for the Go
  map \<open>map_of cache\<close>, whose entries are those of \<open>AList.clearjunk cache\<close>. The encoder
  writes them in the order of their keys, each key coerced; the decoder lets a later
  member of the object override an earlier one with the same key, so the members are
  listed last first.
\<close>

definition json_written :: "(string \<times> Position) list \<Rightarrow> (string \<times> Position) list" where
  "json_written cache =
     rev (map (\<lambda>(k, p). (toValidUTF8 k, p)) (sort_key fst (AList.clearjunk cache)))"

text \<open>
  \<^verbatim>\<open>flushTagsFile\<close>: truncate, seek to the start, encode the cache, sync. After the encoder
  has written, the file holds the document of the cache.
\<close>

definition flushTagsFile :: "WALWriter \<Rightarrow> disk \<Rightarrow> error option \<times> disk" where
  "flushTagsFile wal d =
     (case sys TruncateTags d of
        (Some e, d1) \<Rightarrow> (Some e, d1)
      | (None, d1) \<Rightarrow>
     (case sys SeekTags (d1\<lparr>tagsFile := Some TagsEmpty\<rparr>) of
        (Some e, d2) \<Rightarrow> (Some e, d2)
      | (None, d2) \<Rightarrow>
     (case sys (EncodeTags (w_cache wal)) d2 of
        (Some e, d3) \<Rightarrow> (Some e, d3)
      | (None, d3) \<Rightarrow> sys SyncTags (d3\<lparr>tagsFile := Some (TagsJSON (json_written (w_cache wal)))\<rparr>))))"

text \<open>
  The first loop of \<^verbatim>\<open>pruneSegments\<close>, entered when the expiration is not the zero time:
  it moves \<open>startAt\<close> forward over the segments that are missing or not modified after
  the expiration, and stops at the first one modified after it or at \<open>index\<close>.
\<close>

function ttlLoop :: "int \<Rightarrow> int \<Rightarrow> int \<Rightarrow> disk \<Rightarrow> (error + int) \<times> disk" where
  "ttlLoop startAt index expiration d =
     (if startAt < index then
        (case os_Stat startAt d of
           (Inl e, d1) \<Rightarrow>
             if e \<noteq> NotExist then (Inl e, d1)
             else ttlLoop (startAt + 1) index expiration d1
         | (Inr mt, d1) \<Rightarrow>
             if mt > expiration then (Inr startAt, d1)
             else ttlLoop (startAt + 1) index expiration d1)
      else (Inr startAt, d))"
  by pat_completeness auto
termination
  by (relation "measure (\<lambda>(startAt, index, expiration, d). nat (index - startAt))") auto

declare ttlLoop.simps [simp del]

text \<open>
  The second loop: it removes the files \<open>i, i - 1, ..., first\<close> and tolerates the
  missing ones. The Go variable \<^verbatim>\<open>pruned\<close> is true after it exactly when the body has
  run, that is when \<open>startAt - 1 \<ge> first\<close>.
\<close>

function removeLoop :: "int \<Rightarrow> int \<Rightarrow> disk \<Rightarrow> error option \<times> disk" where
  "removeLoop i first d =
     (if i \<ge> first then
        (case os_Remove i d of
           (Some e, d1) \<Rightarrow>
             if e \<noteq> NotExist then (Some e, d1)
             else removeLoop (i - 1) first d1
         | (None, d1) \<Rightarrow> removeLoop (i - 1) first d1)
      else (None, d))"
  by pat_completeness auto
termination
  by (relation "measure (\<lambda>(i, first, d). nat (i + 1 - first))") auto

declare removeLoop.simps [simp del]

definition pruneSegments :: "WALWriter \<Rightarrow> int \<Rightarrow> int option \<Rightarrow> disk \<Rightarrow> error option \<times> WALWriter \<times> disk" where
  "pruneSegments wal total' expiration d =
     (let startAt0 = (if w_index wal - total' + 1 < w_first wal then w_first wal
                      else w_index wal - total' + 1) in
      (case (case expiration of
               None \<Rightarrow> (Inr startAt0, d)
             | Some ex \<Rightarrow> ttlLoop startAt0 (w_index wal) ex d) of
         (Inl e, d1) \<Rightarrow> (Some e, wal, d1)
       | (Inr startAt, d1) \<Rightarrow>
      (case removeLoop (startAt - 1) (w_first wal) d1 of
         (Some e, d2) \<Rightarrow> (Some e, wal, d2)
       | (None, d2) \<Rightarrow>
           if startAt - 1 \<ge> w_first wal then
             (let wal1 = wal\<lparr>w_first := startAt,
                             w_cache := filter (\<lambda>(tag, pos). \<not> Segment pos < startAt) (w_cache wal)\<rparr>
              in if \<exists>(tag, pos) \<in> set (w_cache wal). Segment pos < startAt
                 then (case flushTagsFile wal1 d2 of (r, d3) \<Rightarrow> (r, wal1, d3))
                 else (None, wal1, d2))
           else (None, wal, d2))))"

text \<open>
  \<^verbatim>\<open>Write\<close>. The expiration is the zero time (\<open>None\<close>) when the TTL is 0 and
  \<^verbatim>\<open>time.Now().Add(-SegmentTTL)\<close> otherwise.
\<close>

definition Write :: "WALWriter \<Rightarrow> string \<Rightarrow> disk \<Rightarrow> error option \<times> WALWriter \<times> disk" where
  "Write wal data d =
     (let newSize = int (length data) + averageOverhead + sw_size (w_segment wal) in
      (case (if newSize > SegmentSize (w_opts wal) then
               (case rotateSegment wal d of
                  (Some e, wal1, d1) \<Rightarrow> (Some e, wal1, d1)
                | (None, wal1, d1) \<Rightarrow>
                    pruneSegments wal1 (MaxSegments (w_opts wal1))
                      (if SegmentTTL (w_opts wal1) \<noteq> 0
                       then Some (clock d1 - SegmentTTL (w_opts wal1)) else None) d1)
             else (None, wal, d)) of
         (Some e, wal2, d2) \<Rightarrow> (Some e, wal2, d2)
       | (None, wal2, d2) \<Rightarrow>
           (case SegmentWriter_Write (w_segment wal2) data d2 of
              (r, seg, d3) \<Rightarrow> (r, wal2\<lparr>w_segment := seg\<rparr>, d3))))"

definition WALWriter_Pos :: "WALWriter \<Rightarrow> Position" where
  "WALWriter_Pos wal = \<lparr>Segment = w_index wal, Offset = sw_pos (w_segment wal)\<rparr>"

definition WriteTag :: "WALWriter \<Rightarrow> string \<Rightarrow> disk \<Rightarrow> error option \<times> WALWriter \<times> disk" where
  "WriteTag wal tag d =
     (let segPos = sw_pos (w_segment wal) in
      (case SegmentWriter_WriteTag (w_segment wal) tag d of
         (Some e, seg, d1) \<Rightarrow> (Some e, wal\<lparr>w_segment := seg\<rparr>, d1)
       | (None, seg, d1) \<Rightarrow>
           (let wal1 = wal\<lparr>w_segment := seg,
                           w_cache := AList.update tag \<lparr>Segment = w_index wal, Offset = segPos\<rparr> (w_cache wal)\<rparr>
            in (case flushTagsFile wal1 d1 of (r, d2) \<Rightarrow> (r, wal1, d2)))))"

definition WALWriter_Close :: "WALWriter \<Rightarrow> disk \<Rightarrow> error option \<times> disk" where
  "WALWriter_Close wal d = SegmentWriter_Close (w_segment wal) d"

subsection \<open>Segment reader\<close>

text \<open>
  Modelled from the spec: \<^verbatim>\<open>SegmentReader\<close> (segment.go is missing), section 4.3. The
  reader is a byte offset into a segment file, the payload of the record it yielded
  last and a sticky error. \<open>seek_items\<close> gives what is left to decode at an offset:
  the items that start there, nothing at or after the end of the file, and \<open>None\<close>
  when the offset is negative or falls inside an item, where no frame can be decoded.
\<close>

record SegmentReader =
  sr_index :: int
  sr_pos :: int
  sr_value :: string
  sr_err :: "error option"

fun seek_items :: "item list \<Rightarrow> int \<Rightarrow> item list option" where
  "seek_items [] off = (if off < 0 then None else Some [])"
| "seek_items (x # xs) off =
     (if off = 0 then Some (x # xs)
      else if off < item_size x then None
      else seek_items xs (off - item_size x))"

text \<open>
  Modelled from the spec: \<^verbatim>\<open>SegmentReader.next\<close> (segment.go is missing), section 4.3.
  Decoding from the cursor on: records of another type and closing sentinels are
  skipped, a record of the wanted type is yielded and the cursor moves behind it, a
  record with a wrong checksum sets the sticky error, and at the end of the data the
  answer is \<open>False\<close> without an error.
\<close>

fun scan_items :: "rectype \<Rightarrow> item list \<Rightarrow> SegmentReader \<Rightarrow> bool \<times> SegmentReader" where
  "scan_items typ [] s = (False, s)"
| "scan_items typ (Closing # xs) s = scan_items typ xs (s\<lparr>sr_pos := sr_pos s + closingMagicLen\<rparr>)"
| "scan_items typ (BadRec p # xs) s = (False, s\<lparr>sr_err := Some ChecksumError\<rparr>)"
| "scan_items typ (Rec t p # xs) s =
     (if t = typ then (True, s\<lparr>sr_pos := sr_pos s + item_size (Rec t p), sr_value := p\<rparr>)
      else scan_items typ xs (s\<lparr>sr_pos := sr_pos s + item_size (Rec t p)\<rparr>))"

definition SegmentReader_next :: "rectype \<Rightarrow> SegmentReader \<Rightarrow> disk \<Rightarrow> bool \<times> SegmentReader" where
  "SegmentReader_next typ s d =
     (if sr_err s \<noteq> None then (False, s)
      else (case map_of (segs d) (sr_index s) of
              None \<Rightarrow> (False, s)
            | Some f \<Rightarrow>
                (case seek_items (items f) (sr_pos s) of
                   None \<Rightarrow> (False, s\<lparr>sr_err := Some ChecksumError\<rparr>)
                 | Some xs \<Rightarrow> scan_items typ xs s)))"

definition NewSegmentReader :: "int \<Rightarrow> disk \<Rightarrow> (error + SegmentReader) \<times> disk" where
  "NewSegmentReader i d =
     (case sys (OpenSegR i) d of
        (Some e, d1) \<Rightarrow> (Inl e, d1)
      | (None, d1) \<Rightarrow>
          (case map_of (segs d1) i of
             None \<Rightarrow> (Inl NotExist, d1)
           | Some f \<Rightarrow> (Inr \<lparr>sr_index = i, sr_pos = 0, sr_value = [], sr_err = None\<rparr>, d1)))"

definition SegmentReader_Seek :: "SegmentReader \<Rightarrow> int \<Rightarrow> disk \<Rightarrow> error option \<times> SegmentReader \<times> disk" where
  "SegmentReader_Seek s off d =
     (case sys (SeekSegR (sr_index s) off) d of
        (Some e, d1) \<Rightarrow> (Some e, s, d1)
      | (None, d1) \<Rightarrow> (None, s\<lparr>sr_pos := off\<rparr>, d1))"

definition SegmentReader_Close :: "SegmentReader \<Rightarrow> disk \<Rightarrow> error option \<times> disk" where
  "SegmentReader_Close s d = sys (CloseSegR (sr_index s)) d"

subsection \<open>Log reader\<close>

record WALReader =
  r_first :: int
  r_last :: int
  r_index :: int
  r_seg :: "SegmentReader option"
  r_err :: "error option"

definition close_seg :: "SegmentReader option \<Rightarrow> disk \<Rightarrow> disk" where
  "close_seg so d = (case so of None \<Rightarrow> d | Some s \<Rightarrow> snd (SegmentReader_Close s d))"

definition Reset :: "WALReader \<Rightarrow> disk \<Rightarrow> error option \<times> WALReader \<times> disk" where
  "Reset wal d =
     (case rangeSegments (close_seg (r_seg wal) d) of
        (Inl e, d1) \<Rightarrow> (Some e, wal, d1)
      | (Inr (first, last'), d1) \<Rightarrow>
          if first = -1 then (Some ErrNoSegments, wal, d1)
          else (case NewSegmentReader first d1 of
                  (Inl e, d2) \<Rightarrow> (Some e, wal, d2)
                | (Inr r, d2) \<Rightarrow>
                    (None,
                     wal\<lparr>r_first := first, r_last := last', r_index := first, r_seg := Some r\<rparr>,
                     d2)))"

definition NewReader :: "disk \<Rightarrow> (error + WALReader) \<times> disk" where
  "NewReader d =
     (case Reset \<lparr>r_first = 0, r_last = 0, r_index = 0, r_seg = None, r_err = None\<rparr> d of
        (Some e, r, d1) \<Rightarrow> (Inl e, d1)
      | (None, r, d1) \<Rightarrow> (Inr r, d1))"

definition WALReader_Pos :: "WALReader \<Rightarrow> Position" where
  "WALReader_Pos wal =
     (case r_seg wal of
        None \<Rightarrow> \<lparr>Segment = -1, Offset = -1\<rparr>
      | Some s \<Rightarrow>
          if r_err wal \<noteq> None then \<lparr>Segment = -1, Offset = -1\<rparr>
          else \<lparr>Segment = r_index wal, Offset = sr_pos s\<rparr>)"

definition Seek :: "WALReader \<Rightarrow> Position \<Rightarrow> disk \<Rightarrow> error option \<times> WALReader \<times> disk" where
  "Seek wal p d =
     (case (if Segment p = r_index wal then r_seg wal else None) of
        Some s \<Rightarrow>
          (case SegmentReader_Seek s (Offset p) d of
             (r, s1, d1) \<Rightarrow> (r, wal\<lparr>r_seg := Some s1\<rparr>, d1))
      | None \<Rightarrow>
          (case NewSegmentReader (Segment p) d of
             (Inl e, d1) \<Rightarrow> (Some e, wal, d1)
           | (Inr seg, d1) \<Rightarrow>
               (case SegmentReader_Seek seg (Offset p) d1 of
                  (Some e, seg1, d2) \<Rightarrow> (Some e, wal, d2)
                | (None, seg1, d2) \<Rightarrow>
                    (None, wal\<lparr>r_index := Segment p, r_seg := Some seg1\<rparr>,
                     close_seg (r_seg wal) d2))))"

definition WALReader_Value :: "WALReader \<Rightarrow> string" where
  "WALReader_Value r = (case r_seg r of None \<Rightarrow> [] | Some s \<Rightarrow> sr_value s)"

definition WALReader_Error :: "WALReader \<Rightarrow> error option" where
  "WALReader_Error r =
     (case r_err r of
        Some e \<Rightarrow> Some e
      | None \<Rightarrow> (case r_seg r of Some s \<Rightarrow> sr_err s | None \<Rightarrow> None))"

definition WALReader_Close :: "WALReader \<Rightarrow> disk \<Rightarrow> error option \<times> disk" where
  "WALReader_Close r d = (case r_seg r of None \<Rightarrow> (None, d) | Some s \<Rightarrow> SegmentReader_Close s d)"

text \<open>
  \<^verbatim>\<open>WALReader.next\<close>. Every path through the body of its \<^verbatim>\<open>for\<close> loop leaves the loop:
  the body ends in \<^verbatim>\<open>if r.seg.next(typ) { break } else { return false }\<close>, and the
  earlier exits are returns. The body therefore runs once, and the model is the body.
\<close>

definition WALReader_next :: "WALReader \<Rightarrow> rectype \<Rightarrow> disk \<Rightarrow> bool \<times> WALReader \<times> disk" where
  "WALReader_next r0 typ d =
     (let r = r0\<lparr>r_err := None\<rparr> in
      (case (case r_seg r of
               None \<Rightarrow> (False, r)
             | Some s \<Rightarrow> (case SegmentReader_next typ s d of (b, s1) \<Rightarrow> (b, r\<lparr>r_seg := Some s1\<rparr>))) of
         (b, r1) \<Rightarrow>
           if b then (True, r1, d)
           else
             (let idx = r_index r1 + 1 in
              (case (if idx > r_last r1 then
                       (case rangeSegments d of
                          (Inl e, d1) \<Rightarrow> (Inl e, d1)
                        | (Inr (first, last'), d1) \<Rightarrow> (Inr last', d1))
                     else (Inr (r_last r1), d)) of
                 (Inl e, d1) \<Rightarrow> (False, r1\<lparr>r_err := Some e\<rparr>, d1)
               | (Inr last', d1) \<Rightarrow>
                   if idx > last' then (False, r1\<lparr>r_last := last'\<rparr>, d1)
                   else
                     (case NewSegmentReader idx d1 of
                        (Inl e, d2) \<Rightarrow> (False, r1\<lparr>r_last := last', r_index := idx, r_err := Some e\<rparr>, d2)
                      | (Inr seg, d2) \<Rightarrow>
                          (case SegmentReader_next typ seg (close_seg (r_seg r1) d2) of
                             (b2, seg1) \<Rightarrow>
                               (b2, r1\<lparr>r_last := last', r_index := idx, r_seg := Some seg1\<rparr>,
                                close_seg (r_seg r1) d2)))))))"

definition WALReader_Next :: "WALReader \<Rightarrow> disk \<Rightarrow> bool \<times> WALReader \<times> disk" where
  "WALReader_Next r d = WALReader_next r dataType d"

text \<open>The label \<^verbatim>\<open>eof\<close> of \<^verbatim>\<open>SeekTag\<close>: the reader's error if there is one, \<^verbatim>\<open>io.EOF\<close> otherwise.\<close>

definition eof :: "WALReader \<Rightarrow> error option" where
  "eof wal = (case WALReader_Error wal of Some e \<Rightarrow> Some e | None \<Rightarrow> Some EOF)"

subsection \<open>Seeking a tag\<close>

text \<open>
  The linear scan of \<^verbatim>\<open>SeekTag\<close>, \<^verbatim>\<open>for wal.next(tagType) { ... }\<close>, ends: a call of
  \<^verbatim>\<open>next\<close> that answers true has either consumed an item of the current segment file
  or moved to a segment file with a greater index, and a run of the reader does not
  change the segment files. The lemmas below give the two measures.
\<close>

definition segs_above :: "WALReader \<Rightarrow> disk \<Rightarrow> nat" where
  "segs_above r d = length (filter (\<lambda>i. r_index r < i) (map fst (segs d)))"

definition items_left :: "WALReader \<Rightarrow> disk \<Rightarrow> nat" where
  "items_left r d =
     (case r_seg r of
        None \<Rightarrow> 0
      | Some s \<Rightarrow>
          (case map_of (segs d) (sr_index s) of
             None \<Rightarrow> 0
           | Some f \<Rightarrow> (case seek_items (items f) (sr_pos s) of None \<Rightarrow> 0 | Some xs \<Rightarrow> length xs)))"

lemma sys_segs [simp]: "segs (snd (sys c d)) = segs d"
  by (simp add: sys_def)

lemma rangeSegments_segs: "rangeSegments d = (r, d1) \<Longrightarrow> segs d1 = segs d"
  by (auto simp: rangeSegments_def sys_def split: prod.splits option.splits if_splits)

lemma NewSegmentReader_segs: "NewSegmentReader i d = (r, d1) \<Longrightarrow> segs d1 = segs d"
  by (auto simp: NewSegmentReader_def sys_def split: prod.splits option.splits if_splits)

lemma NewSegmentReader_Inr:
  "NewSegmentReader i d = (Inr s, d1) \<Longrightarrow>
     map_of (segs d) i \<noteq> None \<and> segs d1 = segs d
       \<and> s = \<lparr>sr_index = i, sr_pos = 0, sr_value = [], sr_err = None\<rparr>"
  by (auto simp: NewSegmentReader_def sys_def split: prod.splits option.splits if_splits)

lemma close_seg_segs [simp]: "segs (close_seg so d) = segs d"
  by (simp add: close_seg_def SegmentReader_Close_def sys_def split: option.splits)

lemma item_size_pos: "0 < item_size x"
  by (cases x) (simp_all add: closingMagicLen_def)

lemma seek_items_zero [simp]: "seek_items xs 0 = Some xs"
  by (cases xs) simp_all

lemma seek_items_step:
  "seek_items its pos = Some (x # xs) \<Longrightarrow> seek_items its (pos + item_size x) = Some xs"
proof (induction its arbitrary: pos)
  case Nil
  then show ?case by (simp split: if_splits)
next
  case (Cons y ys)
  show ?case
  proof (cases "pos = 0")
    case True
    with Cons.prems have "y = x" "ys = xs" by simp_all
    with True item_size_pos [of x] show ?thesis by simp
  next
    case False
    with Cons.prems have ge: "\<not> pos < item_size y" and rec: "seek_items ys (pos - item_size y) = Some (x # xs)"
      by (simp_all split: if_splits)
    from Cons.IH [OF rec] have "seek_items ys (pos - item_size y + item_size x) = Some xs" .
    moreover have "pos - item_size y + item_size x = pos + item_size x - item_size y" by simp
    ultimately show ?thesis
      using ge item_size_pos [of x] item_size_pos [of y] by simp
  qed
qed

lemma scan_items_True:
  "scan_items ty xs s = (True, s1) \<Longrightarrow> seek_items its (sr_pos s) = Some xs \<Longrightarrow>
     \<exists>zs. seek_items its (sr_pos s1) = Some zs \<and> length zs < length xs \<and> sr_index s1 = sr_index s \<and> sr_err s1 = sr_err s"
proof (induction ty xs s rule: scan_items.induct)
  case (1 ty s)
  then show ?case by simp
next
  case (2 ty xs s)
  from seek_items_step [OF 2(3)] have "seek_items its (sr_pos s + closingMagicLen) = Some xs" by simp
  with 2(1) [of] 2(2) show ?case by fastforce
next
  case (3 ty p xs s)
  then show ?case by simp
next
  case (4 ty t p xs s)
  from seek_items_step [OF 4(3)] have st: "seek_items its (sr_pos s + item_size (Rec t p)) = Some xs" .
  show ?case
  proof (cases "t = ty")
    case True
    with 4(2) st show ?thesis by auto
  next
    case False
    with 4(1) [OF False] 4(2) st show ?thesis by fastforce
  qed
qed


lemma SegmentReader_next_True:
  assumes "SegmentReader_next ty s d = (True, s1)"
  shows "\<exists>f xs zs. map_of (segs d) (sr_index s) = Some f \<and> seek_items (items f) (sr_pos s) = Some xs
            \<and> seek_items (items f) (sr_pos s1) = Some zs \<and> length zs < length xs
            \<and> sr_index s1 = sr_index s \<and> sr_err s1 = None"
proof -
  from assms have e: "sr_err s = None"
    by (auto simp: SegmentReader_next_def split: if_splits)
  from assms e obtain f where f: "map_of (segs d) (sr_index s) = Some f"
    by (auto simp: SegmentReader_next_def split: option.splits)
  from assms e f obtain xs where xs: "seek_items (items f) (sr_pos s) = Some xs"
    and sc: "scan_items ty xs s = (True, s1)"
    by (auto simp: SegmentReader_next_def split: option.splits)
  from scan_items_True [OF sc xs] e f xs show ?thesis by auto
qed

lemma WALReader_next_segs: "WALReader_next r ty d = (b, r1, d1) \<Longrightarrow> segs d1 = segs d"
  by (auto simp: WALReader_next_def Let_def
           split: prod.splits option.splits if_splits sum.splits
           dest!: rangeSegments_segs NewSegmentReader_segs)

lemma filter_above_less:
  "i \<in> set xs \<Longrightarrow> (j::int) < i \<Longrightarrow> length (filter (\<lambda>k. i < k) xs) < length (filter (\<lambda>k. j < k) xs)"
proof (induction xs)
  case Nil
  then show ?case by simp
next
  case (Cons x xs)
  have le: "length (filter (\<lambda>k. i < k) xs) \<le> length (filter (\<lambda>k. j < k) xs)"
    using Cons.prems(2) by (induction xs) auto
  show ?case
  proof (cases "x = i")
    case True
    with le Cons.prems(2) show ?thesis by auto
  next
    case False
    with Cons show ?thesis by auto
  qed
qed

lemma WALReader_next_True:
  assumes "WALReader_next r ty d = (True, r1, d1)"
  shows "segs_above r1 d1 < segs_above r d \<or>
         (segs_above r1 d1 = segs_above r d \<and> items_left r1 d1 < items_left r d)"
proof -
  have sg: "segs d1 = segs d" using assms by (rule WALReader_next_segs)
  show ?thesis
  proof (cases "\<exists>s s1. r_seg r = Some s \<and> SegmentReader_next ty s d = (True, s1)")
    case True
    then obtain s s1 where s: "r_seg r = Some s" and n: "SegmentReader_next ty s d = (True, s1)"
      by blast
    from assms s n have r1: "r1 = r\<lparr>r_err := None, r_seg := Some s1\<rparr>"
      by (simp add: WALReader_next_def)
    from SegmentReader_next_True [OF n] s r1 sg show ?thesis
      by (auto simp: segs_above_def items_left_def)
  next
    case False
    with assms have idx: "r_index r1 = r_index r + 1"
      and ex: "map_of (segs d) (r_index r + 1) \<noteq> None"
      by (auto simp: WALReader_next_def Let_def
           split: prod.splits option.splits if_splits sum.splits
           dest!: rangeSegments_segs NewSegmentReader_Inr)
    from ex have "r_index r + 1 \<in> set (map fst (segs d))"
      by (metis map_of_eq_None_iff set_map)
    from filter_above_less [OF this, of "r_index r"] idx sg show ?thesis
      by (simp add: segs_above_def)
  qed
qed

function scanTags :: "WALReader \<Rightarrow> string \<Rightarrow> disk \<Rightarrow> error option \<times> WALReader \<times> disk" where
  "scanTags wal tag d =
     (case WALReader_next wal tagType d of
        (b, wal1, d1) \<Rightarrow>
          if b then (if WALReader_Value wal1 = tag then (None, wal1, d1) else scanTags wal1 tag d1)
          else (eof wal1, wal1, d1))"
  by pat_completeness auto
termination
proof (relation "inv_image (less_than <*lex*> less_than) (\<lambda>(wal, tag, d). (segs_above wal d, items_left wal d))")
  show "wf (inv_image (less_than <*lex*> less_than) (\<lambda>(wal, tag, d). (segs_above wal d, items_left wal d)))"
    by (intro wf_inv_image wf_lex_prod wf_less_than)
next
  fix wal :: WALReader and tag :: string and d :: disk and b y wal1 d1
  assume "(b, y) = WALReader_next wal tagType d" "(wal1, d1) = y" "b"
  then have "WALReader_next wal tagType d = (True, wal1, d1)" by simp
  from WALReader_next_True [OF this]
  show "((wal1, tag, d1), wal, tag, d)
          \<in> inv_image (less_than <*lex*> less_than) (\<lambda>(wal, tag, d). (segs_above wal d, items_left wal d))"
    by auto
qed

declare scanTags.simps [simp del]

text \<open>
  \<^verbatim>\<open>json.NewDecoder(cacheFile).Decode(&cache)\<close>: a file of length zero gives \<^verbatim>\<open>io.EOF\<close>,
  as encoding/json documents; other bytes that are no document give a decoding error.
\<close>

definition json_Decode :: "tagsdoc \<Rightarrow> disk \<Rightarrow> (error + (string \<times> Position) list) \<times> disk" where
  "json_Decode doc d =
     (case sys DecodeTags d of
        (Some e, d1) \<Rightarrow> (Inl e, d1)
      | (None, d1) \<Rightarrow>
          (case doc of
             TagsEmpty \<Rightarrow> (Inl EOF, d1)
           | TagsInvalid \<Rightarrow> (Inl JSONError, d1)
           | TagsJSON cache \<Rightarrow> (Inr cache, d1)))"

text \<open>
  \<^verbatim>\<open>SeekTag\<close>. When the cache file cannot be opened the code goes on to the scan; when
  it opens, a decoding error is returned; when the cache has the tag, the code seeks,
  reads the next tag record and jumps to \<^verbatim>\<open>eof\<close> unless that record is the tag.
\<close>

definition SeekTag :: "WALReader \<Rightarrow> string \<Rightarrow> disk \<Rightarrow> error option \<times> WALReader \<times> disk" where
  "SeekTag wal tag d =
     (case sys OpenTags d of
        (Some e, d1) \<Rightarrow> scanTags wal tag d1
      | (None, d1) \<Rightarrow>
          (case tagsFile d1 of
             None \<Rightarrow> scanTags wal tag d1
           | Some doc \<Rightarrow>
               (case json_Decode doc d1 of
                  (Inl e, d2) \<Rightarrow> (Some e, wal, d2)
                | (Inr cache, d2) \<Rightarrow>
                    (case map_of cache tag of
                       None \<Rightarrow> scanTags wal tag d2
                     | Some pos \<Rightarrow>
                         (case Seek wal pos d2 of
                            (Some e, wal1, d3) \<Rightarrow> (Some e, wal1, d3)
                          | (None, wal1, d3) \<Rightarrow>
                              (case WALReader_next wal1 tagType d3 of
                                 (b, wal2, d4) \<Rightarrow>
                                   if b \<and> WALReader_Value wal2 = tag then (None, wal2, d4)
                                   else (eof wal2, wal2, d4)))))))"

subsection \<open>Recovery\<close>

definition BeginRecovery :: "string \<Rightarrow> disk \<Rightarrow> (error + WALReader) \<times> disk" where
  "BeginRecovery tag d =
     (case NewReader d of
        (Inl e, d1) \<Rightarrow> (Inl e, d1)
      | (Inr r, d1) \<Rightarrow>
          (case SeekTag r tag d1 of
             (None, r1, d2) \<Rightarrow> (Inr r1, d2)
           | (Some e, r1, d2) \<Rightarrow>
               if e \<noteq> EOF then (Inl e, snd (WALReader_Close r1 d2))
               else (case Reset r1 d2 of
                       (Some e1, r2, d3) \<Rightarrow> (Inl e1, snd (WALReader_Close r2 d3))
                     | (None, r2, d3) \<Rightarrow> (Inr r2, d3))))"

section \<open>What the loops of the writer leave on the disk\<close>

text \<open>The system calls a pruning pass makes: stat and remove of segment files, and the
  rewrite of the tags file.\<close>

fun is_prune_call :: "syscall \<Rightarrow> bool" where
  "is_prune_call (Stat i) = True"
| "is_prune_call (Remove i) = True"
| "is_prune_call TruncateTags = True"
| "is_prune_call SeekTags = True"
| "is_prune_call (EncodeTags c) = True"
| "is_prune_call SyncTags = True"
| "is_prune_call c = False"

lemma os_Stat_cases:
  assumes "os_Stat i d = (x, d0)"
  shows "d0 = d\<lparr>trace := trace d @ [Stat i]\<rparr>
       \<and> ((\<exists>n. x = Inl (IOError n)) \<or> (x = Inl NotExist \<and> map_of (segs d) i = None)
           \<or> (\<exists>f. x = Inr (modTime f) \<and> map_of (segs d) i = Some f))"
  using assms by (auto simp: os_Stat_def sys_def split: option.splits)

lemma os_Remove_cases:
  assumes "os_Remove i d = (x, d0)"
  shows "((\<exists>n. x = Some (IOError n)) \<and> d0 = d\<lparr>trace := trace d @ [Remove i]\<rparr>)
         \<or> (x = Some NotExist \<and> map_of (segs d) i = None \<and> d0 = d\<lparr>trace := trace d @ [Remove i]\<rparr>)
         \<or> (x = None \<and> d0 = d\<lparr>trace := trace d @ [Remove i], segs := AList.delete i (segs d)\<rparr>)"
  using assms by (auto simp: os_Remove_def sys_def split: option.splits)

text \<open>What the TTL loop leaves: only the trace has grown, and every index passed over is
  missing or not modified after the expiration.\<close>

definition expired_or_missing :: "disk \<Rightarrow> int \<Rightarrow> int \<Rightarrow> bool" where
  "expired_or_missing d ex j = (case map_of (segs d) j of None \<Rightarrow> True | Some f \<Rightarrow> \<not> modTime f > ex)"

lemma expired_or_missing_trace [simp]:
  "expired_or_missing (d\<lparr>trace := t\<rparr>) ex j = expired_or_missing d ex j"
  by (simp add: expired_or_missing_def)

lemma ttlLoop_spec:
  "ttlLoop startAt index ex d = (r, d1) \<Longrightarrow>
     (\<exists>ev. d1 = d\<lparr>trace := trace d @ ev\<rparr> \<and> list_all is_prune_call ev)
     \<and> (\<forall>s. r = Inr s \<longrightarrow> startAt \<le> s \<and> (s \<le> index \<or> s = startAt)
            \<and> (\<forall>j. startAt \<le> j \<and> j < s \<longrightarrow> expired_or_missing d ex j))"
proof (induction startAt index ex d arbitrary: r d1 rule: ttlLoop.induct)
  case (1 startAt index ex d)
  show ?case
  proof (cases "startAt < index")
    case False
    with "1.prems" have a: "d1 = d\<lparr>trace := trace d @ []\<rparr> \<and> list_all is_prune_call []"
      and r: "r = Inr startAt"
      by (simp_all add: ttlLoop.simps)
    from a have tr: "\<exists>ev. d1 = d\<lparr>trace := trace d @ ev\<rparr> \<and> list_all is_prune_call ev" by (rule exI)
    from r have "\<forall>s. r = Inr s \<longrightarrow> startAt \<le> s \<and> (s \<le> index \<or> s = startAt)
            \<and> (\<forall>j. startAt \<le> j \<and> j < s \<longrightarrow> expired_or_missing d ex j)"
      by fastforce
    with tr show ?thesis by (rule conjI)
  next
    case True
    obtain x d0 where st: "os_Stat startAt d = (x, d0)" by (cases "os_Stat startAt d") auto
    note c = os_Stat_cases [OF st]
    then have d0: "d0 = d\<lparr>trace := trace d @ [Stat startAt]\<rparr>" by simp
    have stop: "d1 = d0 \<Longrightarrow> (\<forall>s. r = Inr s \<longrightarrow> s = startAt) \<Longrightarrow> ?thesis"
    proof -
      assume "d1 = d0" and s: "\<forall>s. r = Inr s \<longrightarrow> s = startAt"
      with d0 have "d1 = d\<lparr>trace := trace d @ [Stat startAt]\<rparr> \<and> list_all is_prune_call [Stat startAt]"
        by simp
      then have tr: "\<exists>ev. d1 = d\<lparr>trace := trace d @ ev\<rparr> \<and> list_all is_prune_call ev" by (rule exI)
      from s True have "\<forall>s. r = Inr s \<longrightarrow> startAt \<le> s \<and> (s \<le> index \<or> s = startAt)
            \<and> (\<forall>j. startAt \<le> j \<and> j < s \<longrightarrow> expired_or_missing d ex j)"
        by fastforce
      with tr show ?thesis by (rule conjI)
    qed
    have step: "ttlLoop (startAt + 1) index ex d0 = (r, d1) \<Longrightarrow> expired_or_missing d ex startAt \<Longrightarrow>
       (\<exists>ev. d1 = d0\<lparr>trace := trace d0 @ ev\<rparr> \<and> list_all is_prune_call ev)
         \<and> (\<forall>s. r = Inr s \<longrightarrow> startAt + 1 \<le> s \<and> (s \<le> index \<or> s = startAt + 1)
            \<and> (\<forall>j. startAt + 1 \<le> j \<and> j < s \<longrightarrow> expired_or_missing d0 ex j)) \<Longrightarrow> ?thesis"
    proof -
      assume em: "expired_or_missing d ex startAt"
      assume ih: "(\<exists>ev. d1 = d0\<lparr>trace := trace d0 @ ev\<rparr> \<and> list_all is_prune_call ev)
         \<and> (\<forall>s. r = Inr s \<longrightarrow> startAt + 1 \<le> s \<and> (s \<le> index \<or> s = startAt + 1)
            \<and> (\<forall>j. startAt + 1 \<le> j \<and> j < s \<longrightarrow> expired_or_missing d0 ex j))"
      then obtain ev where ev: "d1 = d0\<lparr>trace := trace d0 @ ev\<rparr>" "list_all is_prune_call ev" by blast
      with d0 have "d1 = d\<lparr>trace := trace d @ (Stat startAt # ev)\<rparr> \<and> list_all is_prune_call (Stat startAt # ev)"
        by simp
      then have tr: "\<exists>ev. d1 = d\<lparr>trace := trace d @ ev\<rparr> \<and> list_all is_prune_call ev" by (rule exI)
      have "\<forall>s. r = Inr s \<longrightarrow> startAt \<le> s \<and> (s \<le> index \<or> s = startAt)
            \<and> (\<forall>j. startAt \<le> j \<and> j < s \<longrightarrow> expired_or_missing d ex j)"
      proof (intro allI impI conjI)
        fix s assume r: "r = Inr s"
        with ih True show "startAt \<le> s" "s \<le> index \<or> s = startAt" by auto
        fix j assume j: "startAt \<le> j \<and> j < s"
        show "expired_or_missing d ex j"
        proof (cases "j = startAt")
          case True with em show ?thesis by simp
        next
          case False
          with j ih r have "expired_or_missing d0 ex j" by auto
          with d0 show ?thesis by simp
        qed
      qed
      with tr show ?thesis by (rule conjI)
    qed
    from c show ?thesis
    proof (elim conjE disjE exE)
      fix n assume x: "x = Inl (IOError n)"
      with "1.prems" True st have "d1 = d0" "r = Inl (IOError n)"
        by (simp_all add: ttlLoop.simps [of startAt])
      then show ?thesis by (intro stop) simp_all
    next
      assume x: "x = Inl NotExist" and m: "map_of (segs d) startAt = None"
      with "1.prems" True st have r: "ttlLoop (startAt + 1) index ex d0 = (r, d1)"
        by (simp add: ttlLoop.simps [of startAt])
      from m have em: "expired_or_missing d ex startAt" by (simp add: expired_or_missing_def)
      from "1.IH"(1) [OF True st [symmetric] x _ r] show ?thesis
        by (intro step [OF r em]) simp
    next
      fix f assume x: "x = Inr (modTime f)" and m: "map_of (segs d) startAt = Some f"
      show ?thesis
      proof (cases "modTime f > ex")
        case True
        with "1.prems" \<open>startAt < index\<close> st x have "d1 = d0" "r = Inr startAt"
          by (simp_all add: ttlLoop.simps [of startAt])
        then show ?thesis by (intro stop) simp_all
      next
        case False
        with "1.prems" \<open>startAt < index\<close> st x have r: "ttlLoop (startAt + 1) index ex d0 = (r, d1)"
          by (simp add: ttlLoop.simps [of startAt])
        from m False have em: "expired_or_missing d ex startAt" by (simp add: expired_or_missing_def)
        from "1.IH"(2) [OF \<open>startAt < index\<close> st [symmetric] x False r] show ?thesis
          by (intro step [OF r em])
      qed
    qed
  qed
qed


text \<open>What the removal loop leaves: the trace has grown by calls of the pass, the segment
  files are those of before without the removed ones, which all lie between the bounds,
  and nothing else has changed; when the loop ends without an error, no file is left
  between the bounds.\<close>

definition removed_only :: "int \<Rightarrow> int \<Rightarrow> disk \<Rightarrow> disk \<Rightarrow> bool" where
  "removed_only lo hi d d1 =
     ((\<exists>ev. trace d1 = trace d @ ev \<and> list_all is_prune_call ev)
      \<and> tagsFile d1 = tagsFile d \<and> clock d1 = clock d \<and> faults d1 = faults d
      \<and> dirExists d1 = dirExists d
      \<and> (\<forall>j. map_of (segs d1) j = None \<and> lo \<le> j \<and> j \<le> hi \<or> map_of (segs d1) j = map_of (segs d) j))"

lemma removed_only_refl: "removed_only lo hi d d"
  by (auto simp: removed_only_def intro: exI [of _ "[]"])

lemma removed_only_step:
  assumes c: "os_Remove i d = (x, d0)" and r: "removed_only lo (i - 1) d0 d1" and i: "lo \<le> i" "i \<le> hi"
  shows "removed_only lo hi d d1"
proof -
  from r obtain ev where ev: "trace d1 = trace d0 @ ev" "list_all is_prune_call ev"
    by (auto simp: removed_only_def)
  from os_Remove_cases [OF c] have t0: "trace d0 = trace d @ [Remove i]"
    and fr: "tagsFile d0 = tagsFile d" "clock d0 = clock d" "faults d0 = faults d" "dirExists d0 = dirExists d"
    and sg: "segs d0 = segs d \<or> segs d0 = AList.delete i (segs d)"
    by auto
  from ev t0 have "trace d1 = trace d @ (Remove i # ev) \<and> list_all is_prune_call (Remove i # ev)"
    by simp
  then have tr: "\<exists>ev. trace d1 = trace d @ ev \<and> list_all is_prune_call ev" by (rule exI)
  have "map_of (segs d1) j = None \<and> lo \<le> j \<and> j \<le> hi \<or> map_of (segs d1) j = map_of (segs d) j" for j
  proof -
    from r have "map_of (segs d1) j = None \<and> lo \<le> j \<and> j \<le> i - 1 \<or> map_of (segs d1) j = map_of (segs d0) j"
      by (simp add: removed_only_def)
    moreover from sg have "map_of (segs d0) j = map_of (segs d) j \<or> j = i \<and> map_of (segs d0) j = None"
      by (auto simp: delete_conv' split: if_splits)
    ultimately show ?thesis using i by auto
  qed
  with tr fr r show ?thesis by (simp add: removed_only_def)
qed


lemma removeLoop_spec:
  "removeLoop i first d = (r, d1) \<Longrightarrow>
     removed_only first i d d1
     \<and> (r = None \<longrightarrow> (\<forall>j. first \<le> j \<and> j \<le> i \<longrightarrow> map_of (segs d1) j = None))"
proof (induction i first d arbitrary: r d1 rule: removeLoop.induct)
  case (1 i first d)
  show ?case
  proof (cases "i \<ge> first")
    case False
    with "1.prems" have "d1 = d" by (simp add: removeLoop.simps)
    with False show ?thesis by (auto simp: removed_only_refl)
  next
    case True
    obtain x d0 where rm: "os_Remove i d = (x, d0)" by (cases "os_Remove i d") auto
    note c = os_Remove_cases [OF rm]
    show ?thesis
    proof (cases "\<exists>n. x = Some (IOError n)")
      case io: True
      with "1.prems" True rm have "d1 = d0" "r \<noteq> None"
        by (auto simp: removeLoop.simps [of i])
      with removed_only_step [OF rm removed_only_refl True order_refl] show ?thesis by auto
    next
      case False
      with c have gone: "map_of (segs d0) i = None"
        and x: "x = None \<or> x = Some NotExist"
        by (auto simp: delete_conv')
      from x "1.prems" True rm have rec: "removeLoop (i - 1) first d0 = (r, d1)"
        by (auto simp: removeLoop.simps [of i])
      from x have ih: "removed_only first (i - 1) d0 d1
         \<and> (r = None \<longrightarrow> (\<forall>j. first \<le> j \<and> j \<le> i - 1 \<longrightarrow> map_of (segs d1) j = None))"
      proof
        assume "x = None"
        from "1.IH"(1) [OF True rm [symmetric] this rec] show ?thesis .
      next
        assume "x = Some NotExist"
        from "1.IH"(2) [OF True rm [symmetric] this _ rec] show ?thesis by simp
      qed
      then have ro: "removed_only first (i - 1) d0 d1" by simp
      from ro gone have goni: "map_of (segs d1) i = None"
        by (auto simp: removed_only_def)
      have "\<forall>j. first \<le> j \<and> j \<le> i \<longrightarrow> map_of (segs d1) j = None" if "r = None"
      proof (intro allI impI)
        fix j assume "first \<le> j \<and> j \<le> i"
        with ih that goni show "map_of (segs d1) j = None"
          by (cases "j = i") auto
      qed
      with removed_only_step [OF rm ro True order_refl] show ?thesis by simp
    qed
  qed
qed

lemma append_item_tagsFile [simp]: "tagsFile (append_item i x d) = tagsFile d"
  and append_item_trace [simp]: "trace (append_item i x d) = trace d"
  and append_item_faults [simp]: "faults (append_item i x d) = faults d"
  and append_item_clock [simp]: "clock (append_item i x d) = clock d"
  and append_item_dirExists [simp]: "dirExists (append_item i x d) = dirExists d"
  by (simp_all add: append_item_def split: option.splits)






text \<open>The count-based boundary of a pruning pass, \<open>max(first, index - total + 1)\<close>, which
  the code computes into \<^verbatim>\<open>startAt\<close>.\<close>

definition cutoff :: "WALWriter \<Rightarrow> int \<Rightarrow> int" where
  "cutoff wal total' = max (w_first wal) (w_index wal - total' + 1)"


lemma flushTagsFile_frame:
  "flushTagsFile wal d = (r, d1) \<Longrightarrow>
     segs d1 = segs d \<and> clock d1 = clock d \<and> faults d1 = faults d \<and> dirExists d1 = dirExists d
     \<and> (\<exists>ev. trace d1 = trace d @ ev \<and> list_all is_prune_call ev)"
  by (auto simp: flushTagsFile_def sys_def split: option.splits)



definition prune_calls :: "disk \<Rightarrow> disk \<Rightarrow> bool" where
  "prune_calls d d1 = (\<exists>ev. trace d1 = trace d @ ev \<and> list_all is_prune_call ev)"

lemma prune_calls_refl: "prune_calls d d"
  by (simp add: prune_calls_def)

lemma prune_calls_trans: "prune_calls d d1 \<Longrightarrow> prune_calls d1 d2 \<Longrightarrow> prune_calls d d2"
  by (auto simp: prune_calls_def)

text \<open>What a pruning pass leaves, whatever it returns: files are only removed, and only
  those from \<open>first\<close> up to the final \<^verbatim>\<open>startAt\<close>; the calls made are calls of the pass; the
  writer keeps its index, options and segment, and \<open>first\<close> either stays or becomes
  \<^verbatim>\<open>startAt\<close>.\<close>

definition pruned_to :: "WALWriter \<Rightarrow> int \<Rightarrow> disk \<Rightarrow> WALWriter \<Rightarrow> disk \<Rightarrow> bool" where
  "pruned_to wal startAt d wal1 d1 =
     ((\<forall>j. map_of (segs d1) j = None \<and> w_first wal \<le> j \<and> j < startAt
            \<or> map_of (segs d1) j = map_of (segs d) j)
      \<and> prune_calls d d1
      \<and> clock d1 = clock d \<and> faults d1 = faults d \<and> dirExists d1 = dirExists d
      \<and> w_index wal1 = w_index wal \<and> w_opts wal1 = w_opts wal \<and> w_segment wal1 = w_segment wal
      \<and> (wal1 = wal \<or> w_first wal1 = startAt \<and> w_first wal < startAt))"

lemma removed_only_pruned:
  assumes ro: "removed_only (w_first wal) (startAt - 1) d0 d2"
    and d0: "prune_calls d d0" "segs d0 = segs d" "clock d0 = clock d" "faults d0 = faults d"
            "dirExists d0 = dirExists d"
    and d1: "prune_calls d2 d1" "segs d1 = segs d2" "clock d1 = clock d2" "faults d1 = faults d2"
            "dirExists d1 = dirExists d2"
    and w: "w_index wal1 = w_index wal" "w_opts wal1 = w_opts wal" "w_segment wal1 = w_segment wal"
           "wal1 = wal \<or> w_first wal1 = startAt \<and> w_first wal < startAt"
  shows "pruned_to wal startAt d wal1 d1"
proof -
  from ro have "prune_calls d0 d2" by (simp add: removed_only_def prune_calls_def)
  with d0(1) d1(1) have pc: "prune_calls d d1" by (blast intro: prune_calls_trans)
  have "map_of (segs d1) j = None \<and> w_first wal \<le> j \<and> j < startAt
            \<or> map_of (segs d1) j = map_of (segs d) j" for j
  proof -
    from ro have "map_of (segs d2) j = None \<and> w_first wal \<le> j \<and> j \<le> startAt - 1
                  \<or> map_of (segs d2) j = map_of (segs d0) j"
      by (simp add: removed_only_def)
    with d0(2) d1(2) show ?thesis by fastforce
  qed
  moreover from ro d0 d1 have "clock d1 = clock d \<and> faults d1 = faults d \<and> dirExists d1 = dirExists d"
    by (simp add: removed_only_def)
  ultimately show ?thesis using pc w by (simp add: pruned_to_def)
qed

lemma pruneSegments_after_loops:
  assumes rl: "removeLoop (startAt - 1) (w_first wal) d0 = (rr, d2)"
    and d0: "prune_calls d d0" "segs d0 = segs d" "clock d0 = clock d" "faults d0 = faults d"
            "dirExists d0 = dirExists d"
    and res: "(case (rr, d2) of
         (Some e, d2) \<Rightarrow> (Some e, wal, d2)
       | (None, d2) \<Rightarrow>
           if startAt - 1 \<ge> w_first wal then
             (let wal1 = wal\<lparr>w_first := startAt,
                             w_cache := filter (\<lambda>(tag, pos). \<not> Segment pos < startAt) (w_cache wal)\<rparr>
              in if \<exists>(tag, pos) \<in> set (w_cache wal). Segment pos < startAt
                 then (case flushTagsFile wal1 d2 of (r, d3) \<Rightarrow> (r, wal1, d3))
                 else (None, wal1, d2))
           else (None, wal, d2)) = (r, wal1, d1)"
  shows "pruned_to wal startAt d wal1 d1"
proof -
  from removeLoop_spec [OF rl] have ro: "removed_only (w_first wal) (startAt - 1) d0 d2" by simp
  show ?thesis
  proof (cases "d1 = d2")
    case True
    from res have "w_index wal1 = w_index wal \<and> w_opts wal1 = w_opts wal \<and> w_segment wal1 = w_segment wal
        \<and> (wal1 = wal \<or> w_first wal1 = startAt \<and> w_first wal < startAt)"
      by (auto simp: Let_def split: option.splits if_splits prod.splits)
    with removed_only_pruned [OF ro d0, of d1 wal1] True show ?thesis
      by (simp add: prune_calls_refl)
  next
    case False
    with res have fl: "\<exists>r. flushTagsFile wal1 d2 = (r, d1)"
      and w: "w_index wal1 = w_index wal \<and> w_opts wal1 = w_opts wal \<and> w_segment wal1 = w_segment wal
        \<and> (wal1 = wal \<or> w_first wal1 = startAt \<and> w_first wal < startAt)"
      by (auto simp: Let_def split: option.splits if_splits prod.splits)
    from fl obtain r' where "flushTagsFile wal1 d2 = (r', d1)" ..
    from flushTagsFile_frame [OF this] w removed_only_pruned [OF ro d0, of d1 wal1]
    show ?thesis by (simp add: prune_calls_def)
  qed
qed

lemma pruneSegments_spec:
  assumes p: "pruneSegments wal total' exo d = (r, wal1, d1)"
  shows "\<exists>startAt. pruned_to wal startAt d wal1 d1
     \<and> cutoff wal total' \<le> startAt
     \<and> (case exo of
          None \<Rightarrow> startAt = cutoff wal total'
        | Some ex \<Rightarrow> (startAt \<le> w_index wal \<or> startAt = cutoff wal total')
                     \<and> (\<forall>j. cutoff wal total' \<le> j \<and> j < startAt \<longrightarrow> expired_or_missing d ex j))"
proof -
  have c: "(if w_index wal - total' + 1 < w_first wal then w_first wal else w_index wal - total' + 1)
           = cutoff wal total'"
    by (simp add: cutoff_def max_def)
  show ?thesis
  proof (cases exo)
    case None
    obtain rr d2 where rl: "removeLoop (cutoff wal total' - 1) (w_first wal) d = (rr, d2)"
      by (cases "removeLoop (cutoff wal total' - 1) (w_first wal) d") auto
    from p None rl have "pruned_to wal (cutoff wal total') d wal1 d1"
      by (intro pruneSegments_after_loops [OF rl prune_calls_refl refl refl refl refl])
         (simp add: pruneSegments_def c Let_def)
    with None show ?thesis by auto
  next
    case (Some ex)
    obtain x d0 where tl: "ttlLoop (cutoff wal total') (w_index wal) ex d = (x, d0)"
      by (cases "ttlLoop (cutoff wal total') (w_index wal) ex d") auto
    from ttlLoop_spec [OF tl] obtain ev where ev: "d0 = d\<lparr>trace := trace d @ ev\<rparr>" "list_all is_prune_call ev"
      and sp: "\<forall>s. x = Inr s \<longrightarrow> cutoff wal total' \<le> s \<and> (s \<le> w_index wal \<or> s = cutoff wal total')
            \<and> (\<forall>j. cutoff wal total' \<le> j \<and> j < s \<longrightarrow> expired_or_missing d ex j)"
      by blast
    from ev have d0: "prune_calls d d0" "segs d0 = segs d" "clock d0 = clock d" "faults d0 = faults d"
            "dirExists d0 = dirExists d"
      by (simp_all add: prune_calls_def)
    show ?thesis
    proof (cases x)
      case (Inl e)
      with p Some tl have "wal1 = wal" "d1 = d0"
        by (simp_all add: pruneSegments_def c Let_def)
      with d0 have "pruned_to wal (cutoff wal total') d wal1 d1"
        by (simp add: pruned_to_def)
      moreover have "\<forall>j. cutoff wal total' \<le> j \<and> j < cutoff wal total' \<longrightarrow> expired_or_missing d ex j"
        by fastforce
      ultimately show ?thesis using Some by auto
    next
      case (Inr s)
      obtain rr d2 where rl: "removeLoop (s - 1) (w_first wal) d0 = (rr, d2)"
        by (cases "removeLoop (s - 1) (w_first wal) d0") auto
      from p Some tl Inr rl have "pruned_to wal s d wal1 d1"
        by (intro pruneSegments_after_loops [OF rl d0])
           (simp add: pruneSegments_def c Let_def)
      with sp Inr Some show ?thesis by auto
    qed
  qed
qed












section \<open>Concrete directories for the examples\<close>

text \<open>A directory that exists, with the given segment files and tags file, and no failing call.\<close>

definition mk_disk :: "(int \<times> segfile) list \<Rightarrow> tagsdoc option \<Rightarrow> disk" where
  "mk_disk sg tg =
     \<lparr>dirExists = True, segs = sg, tagsFile = tg, clock = 0, trace = [], faults = (\<lambda>k. None)\<rparr>"

lemmas run_defs =
  mk_disk_def sys_def rangeSegments_def NewSegmentReader_def SegmentReader_Close_def close_seg_def
  SegmentReader_next_def SegmentReader_Seek_def Reset_def NewReader_def WALReader_next_def
  WALReader_Next_def

text \<open>An existing directory with no file in it.\<close>

definition fresh_dir :: disk where
  "fresh_dir = mk_disk [] None"

lemmas json_defs = json_written_def rune_len_def accept_def between_def RuneError_def
  clearjunk.simps AList.delete_eq

lemmas writer_defs = os_Mkdir_def NewSegmentWriter_def file_size_def NewWithOptions_def New_def
  seg_append_def SegmentWriter_Write_def SegmentWriter_WriteTag_def SegmentWriter_Close_def
  append_item_def rotateSegment_def flushTagsFile_def Write_def WriteTag_def averageOverhead_def
  os_Stat_def os_Remove_def pruneSegments_def json_defs

lemmas prune_defs = pruneSegments_def ttlLoop.simps removeLoop.simps os_Stat_def os_Remove_def
  flushTagsFile_def sys_def mk_disk_def json_defs

section \<open>The position of a reader (C9)\<close>

text \<open>
  A log whose only segment holds one record with a wrong checksum, and the reader a call
  of \<^verbatim>\<open>Next\<close> leaves on it: the segment reader keeps the corruption error, the field
  \<^verbatim>\<open>err\<close> of the log reader is nil.
\<close>

definition corrupt_disk :: disk where
  "corrupt_disk = mk_disk [(0, \<lparr>items = [BadRec ''x''], modTime = 0\<rparr>)] None"

definition corrupt_reader :: WALReader where
  "corrupt_reader =
     \<lparr>r_first = 0, r_last = 0, r_index = 0,
      r_seg = Some \<lparr>sr_index = 0, sr_pos = 0, sr_value = [], sr_err = Some ChecksumError\<rparr>,
      r_err = None\<rparr>"

text \<open>
  C9, as stated, fails: \<^verbatim>\<open>Pos\<close> tests the field \<^verbatim>\<open>err\<close> of the log reader only, while
  \<^verbatim>\<open>Error\<close> also reports the error of the segment reader. Opening a reader on
  \<open>corrupt_disk\<close> and calling \<^verbatim>\<open>Next\<close> once gives \<open>corrupt_reader\<close>; there
  \<^verbatim>\<open>Error()\<close> is the checksum error and \<^verbatim>\<open>Pos()\<close> is \<open>{0, 0}\<close>, not \<open>{-1, -1}\<close>.
\<close>

theorem Pos_not_sentinel_on_segment_error:
  "fst (NewReader corrupt_disk) =
     Inr (corrupt_reader\<lparr>r_seg := Some \<lparr>sr_index = 0, sr_pos = 0, sr_value = [], sr_err = None\<rparr>\<rparr>)
   \<and> fst (snd (WALReader_Next
                 (corrupt_reader\<lparr>r_seg := Some \<lparr>sr_index = 0, sr_pos = 0, sr_value = [], sr_err = None\<rparr>\<rparr>)
                 (snd (NewReader corrupt_disk)))) = corrupt_reader
   \<and> WALReader_Error corrupt_reader = Some ChecksumError
   \<and> WALReader_Pos corrupt_reader = \<lparr>Segment = 0, Offset = 0\<rparr>
   \<and> WALReader_Pos corrupt_reader \<noteq> \<lparr>Segment = -1, Offset = -1\<rparr>"
  by (simp add: corrupt_disk_def corrupt_reader_def run_defs WALReader_Error_def WALReader_Pos_def)

text \<open>
  C9, amended: \<^verbatim>\<open>Pos()\<close> returns the sentinel \<open>{-1, -1}\<close> whenever the field \<^verbatim>\<open>err\<close> of
  the log reader is set or no segment is open; otherwise it returns the current index
  and the offset of the segment reader, whatever error the segment reader holds.
\<close>

theorem Pos_sentinel:
  "(r_err r \<noteq> None \<or> r_seg r = None \<longrightarrow> WALReader_Pos r = \<lparr>Segment = -1, Offset = -1\<rparr>)
   \<and> (r_err r = None \<and> r_seg r = Some s \<longrightarrow>
        WALReader_Pos r = \<lparr>Segment = r_index r, Offset = sr_pos s\<rparr>)"
  by (auto simp: WALReader_Pos_def split: option.splits)

theorem Pos_sentinel_witness:
  "WALReader_Pos (corrupt_reader\<lparr>r_err := Some NotExist\<rparr>) = \<lparr>Segment = -1, Offset = -1\<rparr>
   \<and> WALReader_Pos (corrupt_reader\<lparr>r_seg := None\<rparr>) = \<lparr>Segment = -1, Offset = -1\<rparr>
   \<and> WALReader_Pos corrupt_reader = \<lparr>Segment = 0, Offset = 0\<rparr>"
  using Pos_sentinel [of "corrupt_reader\<lparr>r_err := Some NotExist\<rparr>"]
    Pos_sentinel [of "corrupt_reader\<lparr>r_seg := None\<rparr>"]
    Pos_sentinel [of corrupt_reader "\<lparr>sr_index = 0, sr_pos = 0, sr_value = [], sr_err = Some ChecksumError\<rparr>"]
  by (simp add: corrupt_reader_def)

section \<open>Reopening a writer empties the tag cache (C8)\<close>

lemma NewSegmentWriter_tagsFile: "NewSegmentWriter i d = (r, d1) \<Longrightarrow> tagsFile d1 = tagsFile d"
  by (auto simp: NewSegmentWriter_def sys_def split: option.splits)

lemma NewWithOptions_tags:
  assumes "NewWithOptions opts d = (Inr wal, d1)"
  shows "tagsFile d1 = Some TagsEmpty \<and> w_cache wal = []"
  using assms
  by (auto simp: NewWithOptions_def Let_def split: prod.splits option.splits sum.splits
           dest!: NewSegmentWriter_tagsFile)

lemma SeekTag_empty_tags:
  assumes "tagsFile d = Some TagsEmpty"
    and "faults d (length (trace d)) = None"
    and "faults d (Suc (length (trace d))) = None"
  shows "SeekTag wal tag d = (Some EOF, wal, d\<lparr>trace := trace d @ [OpenTags, DecodeTags]\<rparr>)"
  using assms by (simp add: SeekTag_def json_Decode_def sys_def)

text \<open>
  C8: \<^verbatim>\<open>NewWithOptions\<close> (and \<^verbatim>\<open>New\<close>) creates or truncates the \<^verbatim>\<open>tags\<close> file, so that a
  writer that opens leaves it at length zero and starts with an empty cache; and on a
  directory whose \<^verbatim>\<open>tags\<close> file is empty, where the file opens and is read, \<^verbatim>\<open>SeekTag\<close>
  returns the decoder's \<^verbatim>\<open>io.EOF\<close> at once: the reader is the one it was given, and the
  two calls on the tags file are the only ones made, so no scan has been tried.
\<close>

theorem reopen_truncates_tags:
  "(NewWithOptions opts d = (Inr wal, d1) \<longrightarrow> tagsFile d1 = Some TagsEmpty \<and> w_cache wal = [])
   \<and> (tagsFile d2 = Some TagsEmpty \<and> faults d2 (length (trace d2)) = None
         \<and> faults d2 (Suc (length (trace d2))) = None \<longrightarrow>
        SeekTag r tag d2 = (Some EOF, r, d2\<lparr>trace := trace d2 @ [OpenTags, DecodeTags]\<rparr>))"
  using NewWithOptions_tags [of opts d wal d1] SeekTag_empty_tags [of d2 r tag] by blast

text \<open>
  The witness: a log with the tag \<open>commit\<close> in segment 0 and a cache that names it. A
  writer reopens the log, then a reader opens it; \<^verbatim>\<open>SeekTag\<close> answers \<^verbatim>\<open>io.EOF\<close> although
  the scan from the same reader finds the tag.
\<close>

definition tagged_disk :: disk where
  "tagged_disk =
     mk_disk [(0, \<lparr>items = [Rec dataType ''this is data'', Rec tagType ''commit'', Rec dataType ''more data'', Closing],
                   modTime = 0\<rparr>)]
       (Some (TagsJSON [(''commit'', \<lparr>Segment = 0, Offset = 19\<rparr>)]))"

definition reopened_disk :: disk where
  "reopened_disk = snd (NewReader (snd (New tagged_disk)))"

definition fresh_reader :: WALReader where
  "fresh_reader =
     \<lparr>r_first = 0, r_last = 0, r_index = 0,
      r_seg = Some \<lparr>sr_index = 0, sr_pos = 0, sr_value = [], sr_err = None\<rparr>, r_err = None\<rparr>"

lemma New_tagged_disk:
  "New tagged_disk =
     (Inr \<lparr>w_opts = DefaultWriteOptions, w_first = 0, w_index = 0,
           w_segment = \<lparr>sw_index = 0, sw_size = 48 + closingMagicLen, sw_pos = 48 + closingMagicLen\<rparr>,
           w_cache = []\<rparr>,
      tagged_disk\<lparr>tagsFile := Some TagsEmpty, trace := [Mkdir, OpenDir, Readdir, CreateTags, OpenSegW 0]\<rparr>)"
  by (simp add: tagged_disk_def mk_disk_def New_def NewWithOptions_def os_Mkdir_def sys_def
        rangeSegments_def NewSegmentWriter_def file_size_def)

lemma reopened_disk_eq:
  "reopened_disk =
     tagged_disk\<lparr>tagsFile := Some TagsEmpty,
       trace := [Mkdir, OpenDir, Readdir, CreateTags, OpenSegW 0, OpenDir, Readdir, OpenSegR 0]\<rparr>"
    "fst (NewReader (snd (New tagged_disk))) = Inr fresh_reader"
  by (simp_all add: reopened_disk_def New_tagged_disk fresh_reader_def)
     (simp_all add: tagged_disk_def run_defs)

theorem reopen_truncates_tags_witness:
  "tagsFile (snd (New tagged_disk)) = Some TagsEmpty
   \<and> fst (NewReader (snd (New tagged_disk))) = Inr fresh_reader
   \<and> SeekTag fresh_reader ''commit'' reopened_disk
       = (Some EOF, fresh_reader, reopened_disk\<lparr>trace := trace reopened_disk @ [OpenTags, DecodeTags]\<rparr>)
   \<and> fst (scanTags fresh_reader ''commit'' reopened_disk) = None"
proof -
  have sc: "fst (scanTags fresh_reader ''commit'' reopened_disk) = None"
    by (simp add: reopened_disk_eq fresh_reader_def tagged_disk_def run_defs WALReader_Value_def
          scanTags.simps)
  have fl: "tagsFile reopened_disk = Some TagsEmpty \<and> faults reopened_disk (length (trace reopened_disk)) = None
         \<and> faults reopened_disk (Suc (length (trace reopened_disk))) = None"
    by (simp add: reopened_disk_eq tagged_disk_def mk_disk_def)
  from reopen_truncates_tags [of DefaultWriteOptions tagged_disk _ _ reopened_disk fresh_reader "''commit''"]
    New_tagged_disk fl sc reopened_disk_eq(2)
  show ?thesis by (simp add: New_def)
qed


section \<open>A cache entry that fails validation (C1)\<close>

lemmas seek_defs = SeekTag_def json_Decode_def Seek_def scanTags.simps eof_def
  WALReader_Error_def WALReader_Value_def BeginRecovery_def WALReader_Close_def

text \<open>
  A log whose cache names offset 0 of segment 0 for the tag \<open>commit\<close>, where the tag
  record \<open>other\<close> stands; the record of \<open>commit\<close> follows it.
\<close>

definition stale_disk :: disk where
  "stale_disk =
     mk_disk [(0, \<lparr>items = [Rec tagType ''other'', Rec tagType ''commit'', Rec dataType ''more data''], modTime = 0\<rparr>)]
       (Some (TagsJSON [(''commit'', \<lparr>Segment = 0, Offset = 0\<rparr>)]))"

text \<open>
  C1, as stated, fails: when the cache has an entry for the tag and the record read at
  the cached position is not the tag, the code jumps to the label \<^verbatim>\<open>eof\<close>, past the scan
  loop. On \<open>stale_disk\<close> the cache file opens and decodes and has the entry, the
  validation reads \<open>other\<close>, and \<^verbatim>\<open>SeekTag\<close> returns \<^verbatim>\<open>io.EOF\<close>; a scan from the cursor
  the reader then has, or from the one it had before, reaches the record of the tag.
\<close>

theorem SeekTag_no_fallback_after_validation:
  "fst (NewReader stale_disk) = Inr fresh_reader
   \<and> fst (SeekTag fresh_reader ''commit'' (snd (NewReader stale_disk))) = Some EOF
   \<and> WALReader_Value (fst (snd (SeekTag fresh_reader ''commit'' (snd (NewReader stale_disk))))) = ''other''
   \<and> fst (scanTags (fst (snd (SeekTag fresh_reader ''commit'' (snd (NewReader stale_disk))))) ''commit''
             (snd (snd (SeekTag fresh_reader ''commit'' (snd (NewReader stale_disk)))))) = None
   \<and> fst (scanTags fresh_reader ''commit'' (snd (NewReader stale_disk))) = None"
  by (simp add: stale_disk_def fresh_reader_def run_defs seek_defs)

text \<open>
  C1, amended: when the cache file opens and decodes and has an entry for the tag, the
  seek to the cached position succeeds and the next tag record read there is missing or
  is not the tag, \<^verbatim>\<open>SeekTag\<close> does not scan. It returns the reader's error when there is
  one and \<^verbatim>\<open>io.EOF\<close> otherwise, never success, and leaves the reader where the
  validating read left it.
\<close>

theorem SeekTag_validation_fails:
  assumes tf: "tagsFile d = Some (TagsJSON cache)"
    and f0: "faults d (length (trace d)) = None"
    and f1: "faults d (Suc (length (trace d))) = None"
    and hit: "map_of cache tag = Some pos"
    and sk: "Seek wal pos (d\<lparr>trace := trace d @ [OpenTags, DecodeTags]\<rparr>) = (None, wal1, d1)"
    and nx: "WALReader_next wal1 tagType d1 = (b, wal2, d2)"
    and bad: "\<not> (b \<and> WALReader_Value wal2 = tag)"
  shows "SeekTag wal tag d =
           ((case WALReader_Error wal2 of Some e \<Rightarrow> Some e | None \<Rightarrow> Some EOF), wal2, d2)
         \<and> fst (SeekTag wal tag d) \<noteq> None"
  using assms
  by (auto simp: SeekTag_def json_Decode_def sys_def eof_def split: option.splits)

theorem SeekTag_validation_fails_witness:
  "SeekTag fresh_reader ''commit'' (stale_disk\<lparr>trace := [OpenDir, Readdir, OpenSegR 0]\<rparr>) =
     (Some EOF,
      fresh_reader\<lparr>r_seg := Some \<lparr>sr_index = 0, sr_pos = 12, sr_value = ''other'', sr_err = None\<rparr>\<rparr>,
      stale_disk\<lparr>trace := [OpenDir, Readdir, OpenSegR 0, OpenTags, DecodeTags, SeekSegR 0 0]\<rparr>)"
proof -
  define d0 where "d0 = stale_disk\<lparr>trace := [OpenDir, Readdir, OpenSegR 0]\<rparr>"
  define d1 where "d1 = stale_disk\<lparr>trace := [OpenDir, Readdir, OpenSegR 0, OpenTags, DecodeTags, SeekSegR 0 0]\<rparr>"
  define r2 where
    "r2 = fresh_reader\<lparr>r_seg := Some \<lparr>sr_index = 0, sr_pos = 12, sr_value = ''other'', sr_err = None\<rparr>\<rparr>"
  have tf: "tagsFile d0 = Some (TagsJSON [(''commit'', \<lparr>Segment = 0, Offset = 0\<rparr>)])"
    and f0: "faults d0 (length (trace d0)) = None"
    and f1: "faults d0 (Suc (length (trace d0))) = None"
    by (simp_all add: d0_def stale_disk_def mk_disk_def)
  have hit: "map_of [(''commit'', \<lparr>Segment = 0, Offset = 0\<rparr>)] ''commit'' = Some \<lparr>Segment = 0, Offset = 0\<rparr>"
    by simp
  have sk: "Seek fresh_reader \<lparr>Segment = 0, Offset = 0\<rparr> (d0\<lparr>trace := trace d0 @ [OpenTags, DecodeTags]\<rparr>)
              = (None, fresh_reader, d1)"
    by (simp add: d0_def d1_def stale_disk_def fresh_reader_def run_defs Seek_def)
  have nx: "WALReader_next fresh_reader tagType d1 = (True, r2, d1)"
    by (simp add: d1_def r2_def stale_disk_def fresh_reader_def run_defs)
  have bad: "\<not> (True \<and> WALReader_Value r2 = ''commit'')"
    by (simp add: r2_def WALReader_Value_def)
  have er: "WALReader_Error r2 = None"
    by (simp add: r2_def fresh_reader_def WALReader_Error_def)
  from SeekTag_validation_fails [OF tf f0 f1 hit sk nx bad] er
  show ?thesis by (simp add: d0_def d1_def r2_def)
qed

section \<open>Recovery from a tag (C6)\<close>












section \<open>One call of next advances by one segment (C7)\<close>

text \<open>
  A log of three segments, the first two holding data records only and the third the
  tag \<open>commit\<close>; the reader \<^verbatim>\<open>NewReader\<close> gives on it; and the reader one call of
  \<^verbatim>\<open>next(tagType)\<close> leaves.
\<close>

definition gap_disk :: disk where
  "gap_disk =
     mk_disk [(0, \<lparr>items = [Rec dataType ''first data'', Closing], modTime = 0\<rparr>),
              (1, \<lparr>items = [Rec dataType ''second data'', Closing], modTime = 0\<rparr>),
              (2, \<lparr>items = [Rec tagType ''commit'', Rec dataType ''third data''], modTime = 0\<rparr>)]
       None"

definition gap_reader :: WALReader where
  "gap_reader =
     \<lparr>r_first = 0, r_last = 2, r_index = 0,
      r_seg = Some \<lparr>sr_index = 0, sr_pos = 0, sr_value = [], sr_err = None\<rparr>, r_err = None\<rparr>"

definition gap_reader1 :: WALReader where
  "gap_reader1 =
     \<lparr>r_first = 0, r_last = 2, r_index = 1,
      r_seg = Some \<lparr>sr_index = 1, sr_pos = 18 + closingMagicLen, sr_value = [], sr_err = None\<rparr>, r_err = None\<rparr>"

text \<open>
  C7 does not hold of the code. The call \<^verbatim>\<open>next(tagType)\<close> on the fresh reader exhausts
  segment 0, opens segment 1, finds no tag record there and returns false with no error,
  at index 1 of a log whose highest known index is 2: it has not reached segment 2,
  whose first record matches. A second call yields that record. \<^verbatim>\<open>SeekTag\<close>, whose scan
  loop ends at the first false, reports \<^verbatim>\<open>io.EOF\<close> for the tag.
\<close>

theorem next_stops_at_segment_without_match:
  "fst (NewReader gap_disk) = Inr gap_reader
   \<and> fst (WALReader_next gap_reader tagType (snd (NewReader gap_disk))) = False
   \<and> fst (snd (WALReader_next gap_reader tagType (snd (NewReader gap_disk)))) = gap_reader1
   \<and> WALReader_Error gap_reader1 = None
   \<and> r_index gap_reader1 < r_last gap_reader1
   \<and> map_of (segs gap_disk) 2 = Some \<lparr>items = [Rec tagType ''commit'', Rec dataType ''third data''], modTime = 0\<rparr>
   \<and> fst (WALReader_next gap_reader1 tagType (snd (snd (WALReader_next gap_reader tagType (snd (NewReader gap_disk)))))) = True
   \<and> fst (SeekTag gap_reader ''commit'' (snd (NewReader gap_disk))) = Some EOF"
  by (simp add: gap_disk_def gap_reader_def gap_reader1_def run_defs seek_defs)


section \<open>Writing a tag (C2)\<close>

text \<open>
  \<^verbatim>\<open>WriteTag\<close> with a name that is not valid UTF-8, here the single byte \<open>0xFF\<close>, on the
  writer and the directory of the test "keeps a cache of tag locations" after \<^verbatim>\<open>New\<close> and
  \<^verbatim>\<open>Write("this is data")\<close>.
\<close>

definition tag_writer :: WALWriter where
  "tag_writer =
     \<lparr>w_opts = DefaultWriteOptions, w_first = 0, w_index = 0,
      w_segment = \<lparr>sw_index = 0, sw_size = 19, sw_pos = 19\<rparr>, w_cache = []\<rparr>"

definition tag_disk :: disk where
  "tag_disk =
     (mk_disk [(0, \<lparr>items = [Rec dataType ''this is data''], modTime = 0\<rparr>)] (Some TagsEmpty))
       \<lparr>trace := [Mkdir, OpenDir, Readdir, CreateTags, OpenSegW 0, AppendSeg 0 dataType ''this is data'']\<rparr>"

lemma tag_writer_reached:
  "New fresh_dir = (Inr w0, d0) \<Longrightarrow> Write w0 ''this is data'' d0 = (None, tag_writer, tag_disk)"
  by (auto simp: fresh_dir_def tag_writer_def tag_disk_def mk_disk_def sys_def rangeSegments_def writer_defs
       DefaultWriteOptions_def MaxSegmentSize_def)






section \<open>Pruning by count (C5)\<close>

text \<open>Every entry of the writer's tag cache names a segment at or after \<open>first\<close>.\<close>

definition cache_above_first :: "WALWriter \<Rightarrow> bool" where
  "cache_above_first wal = list_all (\<lambda>(tag, pos). w_first wal \<le> Segment pos) (w_cache wal)"








text \<open>
  The witness: a writer at index 2 that keeps two segments, with a cached tag in segment
  0 and one in segment 2. The pass removes segment 0 and the tag cached there, and
  rewrites the tags file.
\<close>

definition one_opts :: WriteOptions where
  "one_opts = \<lparr>SegmentSize = 20, MaxSegments = 1, SegmentTTL = 0, SyncRate = 0\<rparr>"





section \<open>Pruning with a TTL (C3)\<close>

text \<open>
  A writer at index 2 that keeps one segment for an hour, and a directory whose three
  segment files were all modified at the time of the pass, 1000.
\<close>

definition ttl_writer :: WALWriter where
  "ttl_writer =
     \<lparr>w_opts = \<lparr>SegmentSize = 20, MaxSegments = 1, SegmentTTL = 3600, SyncRate = 0\<rparr>,
      w_first = 0, w_index = 2, w_segment = \<lparr>sw_index = 2, sw_size = 0, sw_pos = 0\<rparr>, w_cache = []\<rparr>"

definition ttl_disk :: disk where
  "ttl_disk =
     (mk_disk [(0, \<lparr>items = [Rec dataType ''first data'', Closing], modTime = 1000\<rparr>),
               (1, \<lparr>items = [Rec dataType ''second data'', Closing], modTime = 1000\<rparr>),
               (2, \<lparr>items = [], modTime = 1000\<rparr>)] (Some TagsEmpty))\<lparr>clock := 1000\<rparr>"

text \<open>
  C3, as stated, fails: the pass first sets \<^verbatim>\<open>startAt\<close> to the count-based boundary and
  later removes every file below the final \<^verbatim>\<open>startAt\<close>; the TTL loop only moves
  \<^verbatim>\<open>startAt\<close> further. Here the expiration is \<open>1000 - 3600\<close>, every file is modified
  after it, the boundary is \<open>2 - 1 + 1 = 2\<close>, and the pass removes segments 0 and 1.
\<close>

theorem prune_deletes_within_ttl:
  "map_of (segs ttl_disk) 1 = Some \<lparr>items = [Rec dataType ''second data'', Closing], modTime = 1000\<rparr>
   \<and> clock ttl_disk - SegmentTTL (w_opts ttl_writer) = - 2600
   \<and> w_index ttl_writer - MaxSegments (w_opts ttl_writer) + 1 = 2
   \<and> fst (pruneSegments ttl_writer 1 (Some (- 2600)) ttl_disk) = None
   \<and> map_of (segs (snd (snd (pruneSegments ttl_writer 1 (Some (- 2600)) ttl_disk)))) 1 = None
   \<and> map_of (segs (snd (snd (pruneSegments ttl_writer 1 (Some (- 2600)) ttl_disk)))) 0 = None"
  by (simp add: ttl_writer_def ttl_disk_def prune_defs)

lemma pruneSegments_ok_gone:
  assumes p: "pruneSegments wal total' exo d = (None, wal1, d1)"
  shows "\<forall>j. w_first wal \<le> j \<and> j < cutoff wal total' \<longrightarrow> map_of (segs d1) j = None"
proof -
  have c: "(if w_index wal - total' + 1 < w_first wal then w_first wal else w_index wal - total' + 1)
           = cutoff wal total'"
    by (simp add: cutoff_def max_def)
  have "\<exists>s d0 d2. cutoff wal total' \<le> s \<and> removeLoop (s - 1) (w_first wal) d0 = (None, d2)
          \<and> segs d1 = segs d2"
  proof (cases exo)
    case None
    obtain rr d2 where rl: "removeLoop (cutoff wal total' - 1) (w_first wal) d = (rr, d2)"
      by (cases "removeLoop (cutoff wal total' - 1) (w_first wal) d") auto
    from p None rl have rr: "rr = None"
      by (auto simp: pruneSegments_def c Let_def split: option.splits)
    from p None rl rr have "d1 = d2 \<or> (\<exists>w r'. flushTagsFile w d2 = (r', d1))"
      by (auto simp: pruneSegments_def c Let_def split: option.splits if_splits prod.splits)
    then have "segs d1 = segs d2" by (auto dest: flushTagsFile_frame)
    with rl rr show ?thesis by (intro exI [of _ "cutoff wal total'"] exI [of _ d] exI [of _ d2]) simp
  next
    case (Some ex)
    obtain x d0 where tl: "ttlLoop (cutoff wal total') (w_index wal) ex d = (x, d0)"
      by (cases "ttlLoop (cutoff wal total') (w_index wal) ex d") auto
    from p Some tl obtain s where x: "x = Inr s"
      by (cases x) (auto simp: pruneSegments_def c Let_def)
    from ttlLoop_spec [OF tl] x have ge: "cutoff wal total' \<le> s" by simp
    obtain rr d2 where rl: "removeLoop (s - 1) (w_first wal) d0 = (rr, d2)"
      by (cases "removeLoop (s - 1) (w_first wal) d0") auto
    from p Some tl x rl have rr: "rr = None"
      by (auto simp: pruneSegments_def c Let_def split: option.splits)
    from p Some tl x rl rr have "d1 = d2 \<or> (\<exists>w r'. flushTagsFile w d2 = (r', d1))"
      by (auto simp: pruneSegments_def c Let_def split: option.splits if_splits prod.splits)
    then have "segs d1 = segs d2" by (auto dest: flushTagsFile_frame)
    with rl rr ge show ?thesis by (intro exI [of _ s] exI [of _ d0] exI [of _ d2]) simp
  qed
  then obtain s d0 d2 where ge: "cutoff wal total' \<le> s"
    and rl: "removeLoop (s - 1) (w_first wal) d0 = (None, d2)" and sg: "segs d1 = segs d2"
    by blast
  from removeLoop_spec [OF rl] have "\<forall>j. w_first wal \<le> j \<and> j \<le> s - 1 \<longrightarrow> map_of (segs d2) j = None"
    by simp
  with ge sg show ?thesis by fastforce
qed

text \<open>
  C3, amended: in a pruning pass with a non-zero expiration, whatever the pass returns, a
  segment file that the pass deletes and whose index is at or above the count-based
  boundary \<open>max(first, index - total + 1)\<close> was not modified after the expiration, and
  its index is below the writer's index; and a pass that returns without an error leaves
  no segment file with an index in \<open>[first, boundary)\<close>, whatever the modification times.
\<close>

theorem prune_ttl_above_cutoff:
  assumes p: "pruneSegments wal total' (Some ex) d = (r, wal1, d1)"
  shows "(map_of (segs d) i = Some f \<and> map_of (segs d1) i = None \<and> cutoff wal total' \<le> i \<longrightarrow>
            \<not> modTime f > ex \<and> i < w_index wal \<and> w_first wal \<le> i)
       \<and> (r = None \<longrightarrow> (\<forall>j. w_first wal \<le> j \<and> j < cutoff wal total' \<longrightarrow> map_of (segs d1) j = None))"
proof (intro conjI impI)
  assume a: "map_of (segs d) i = Some f \<and> map_of (segs d1) i = None \<and> cutoff wal total' \<le> i"
  then have f: "map_of (segs d) i = Some f" and del: "map_of (segs d1) i = None"
    and ge: "cutoff wal total' \<le> i" by simp_all
  from pruneSegments_spec [OF p] obtain startAt where
    pt: "pruned_to wal startAt d wal1 d1"
    and ix: "startAt \<le> w_index wal \<or> startAt = cutoff wal total'"
    and ex: "\<forall>j. cutoff wal total' \<le> j \<and> j < startAt \<longrightarrow> expired_or_missing d ex j"
    by auto
  from pt have "map_of (segs d1) i = None \<and> w_first wal \<le> i \<and> i < startAt
            \<or> map_of (segs d1) i = map_of (segs d) i"
    by (simp add: pruned_to_def)
  with f del have i: "w_first wal \<le> i" "i < startAt" by auto
  with ge ex have "expired_or_missing d ex i" by simp
  with f show "\<not> modTime f > ex" by (simp add: expired_or_missing_def)
  from i ge ix show "i < w_index wal" by auto
  from i show "w_first wal \<le> i" by simp
next
  assume "r = None"
  with p have "pruneSegments wal total' (Some ex) d = (None, wal1, d1)" by simp
  then show "\<forall>j. w_first wal \<le> j \<and> j < cutoff wal total' \<longrightarrow> map_of (segs d1) j = None"
    by (rule pruneSegments_ok_gone)
qed

text \<open>
  The witness: a writer at index 3 that keeps three segments; segments 0 and 1 are older
  than the expiration 500, segments 2 and 3 are newer. The boundary is 1; the pass
  removes segment 0, below the boundary, and segment 1, which is at the boundary and
  expired, and keeps segment 2.
\<close>

definition ttl_disk2 :: disk where
  "ttl_disk2 =
     mk_disk [(0, \<lparr>items = [], modTime = 0\<rparr>), (1, \<lparr>items = [], modTime = 0\<rparr>),
              (2, \<lparr>items = [], modTime = 1000\<rparr>), (3, \<lparr>items = [], modTime = 1000\<rparr>)]
       (Some TagsEmpty)"

theorem prune_ttl_above_cutoff_witness:
  "cutoff (ttl_writer\<lparr>w_index := 3\<rparr>) 3 = 1
   \<and> fst (pruneSegments (ttl_writer\<lparr>w_index := 3\<rparr>) 3 (Some 500) ttl_disk2) = None
   \<and> map_of (segs ttl_disk2) 1 = Some \<lparr>items = [], modTime = 0\<rparr>
   \<and> map_of (segs (snd (snd (pruneSegments (ttl_writer\<lparr>w_index := 3\<rparr>) 3 (Some 500) ttl_disk2)))) 1 = None
   \<and> map_of (segs (snd (snd (pruneSegments (ttl_writer\<lparr>w_index := 3\<rparr>) 3 (Some 500) ttl_disk2)))) 0 = None
   \<and> map_of (segs (snd (snd (pruneSegments (ttl_writer\<lparr>w_index := 3\<rparr>) 3 (Some 500) ttl_disk2)))) 2
        = Some \<lparr>items = [], modTime = 1000\<rparr>
   \<and> \<not> modTime \<lparr>items = [], modTime = 0\<rparr> > 500 \<and> (1::int) < 3"
proof -
  define w where "w = ttl_writer\<lparr>w_index := 3\<rparr>"
  define w1 where "w1 = fst (snd (pruneSegments w 3 (Some 500) ttl_disk2))"
  define d1 where "d1 = snd (snd (pruneSegments w 3 (Some 500) ttl_disk2))"
  have p: "pruneSegments w 3 (Some 500) ttl_disk2 = (None, w1, d1)"
    unfolding w1_def d1_def by (simp add: w_def ttl_writer_def ttl_disk2_def prune_defs)
  have f: "map_of (segs ttl_disk2) 1 = Some \<lparr>items = [], modTime = 0\<rparr>"
    by (simp add: ttl_disk2_def mk_disk_def)
  have del: "map_of (segs d1) 1 = None"
    and kept: "map_of (segs d1) 2 = Some \<lparr>items = [], modTime = 1000\<rparr>"
    unfolding d1_def by (simp_all add: w_def ttl_writer_def ttl_disk2_def prune_defs)
  have c: "cutoff w 3 = 1" "w_first w = 0"
    by (simp_all add: cutoff_def w_def ttl_writer_def)
  from prune_ttl_above_cutoff [OF p, of 1 "\<lparr>items = [], modTime = 0\<rparr>"] c f del
  have a: "\<not> modTime \<lparr>items = [], modTime = 0\<rparr> > 500 \<and> (1::int) < w_index w" by simp
  from prune_ttl_above_cutoff [OF p, of 1 "\<lparr>items = [], modTime = 0\<rparr>"] c
  have b: "map_of (segs d1) 0 = None" by simp
  from p have r: "fst (pruneSegments w 3 (Some 500) ttl_disk2) = None" by simp
  from a b c f del kept r show ?thesis unfolding w_def d1_def by (simp add: ttl_writer_def)
qed


section \<open>Writing a record: rotation, pruning, append (C4)\<close>

text \<open>The projected size of \<^verbatim>\<open>Write\<close> and the expiration it passes to the pruning pass.\<close>

definition newSize :: "WALWriter \<Rightarrow> string \<Rightarrow> int" where
  "newSize wal data = int (length data) + averageOverhead + sw_size (w_segment wal)"

definition expiration :: "WALWriter \<Rightarrow> disk \<Rightarrow> int option" where
  "expiration wal d =
     (if SegmentTTL (w_opts wal) \<noteq> 0 then Some (clock d - SegmentTTL (w_opts wal)) else None)"






text \<open>
  The witness: the test "removes segments when there would be too many", segment size
  20 and one segment kept. The first write fits and appends; the second rotates to
  index 1, prunes segment 0 and appends to segment 1.
\<close>

definition rot_w0 :: WALWriter where
  "rot_w0 = \<lparr>w_opts = one_opts, w_first = 0, w_index = 0,
             w_segment = \<lparr>sw_index = 0, sw_size = 0, sw_pos = 0\<rparr>, w_cache = []\<rparr>"

definition rot_d0 :: disk where
  "rot_d0 = mk_disk [(0, \<lparr>items = [], modTime = 0\<rparr>)] (Some TagsEmpty)"












section \<open>The invariant \<open>first \<le> index\<close> (C10)\<close>

text \<open>
  Options that set the segment size and leave \<^verbatim>\<open>MaxSegments\<close> at its zero value, and the
  states of a run on an empty directory: open, a write that fits, a write that rotates.
\<close>

definition zero_opts :: WriteOptions where
  "zero_opts = \<lparr>SegmentSize = 20, MaxSegments = 0, SegmentTTL = 0, SyncRate = 0\<rparr>"

definition zero_w0 :: WALWriter where
  "zero_w0 = \<lparr>w_opts = zero_opts, w_first = 0, w_index = 0,
              w_segment = \<lparr>sw_index = 0, sw_size = 0, sw_pos = 0\<rparr>, w_cache = []\<rparr>"

definition zero_d0 :: disk where
  "zero_d0 = (mk_disk [(0, \<lparr>items = [], modTime = 0\<rparr>)] (Some TagsEmpty))
               \<lparr>trace := [Mkdir, OpenDir, Readdir, CreateTags, OpenSegW 0]\<rparr>"

definition zero_w1 :: WALWriter where
  "zero_w1 = zero_w0\<lparr>w_segment := \<lparr>sw_index = 0, sw_size = 19, sw_pos = 19\<rparr>\<rparr>"

definition zero_d1 :: disk where
  "zero_d1 = (mk_disk [(0, \<lparr>items = [Rec dataType ''this is data''], modTime = 0\<rparr>)] (Some TagsEmpty))
               \<lparr>trace := [Mkdir, OpenDir, Readdir, CreateTags, OpenSegW 0,
                           AppendSeg 0 dataType ''this is data'']\<rparr>"

definition zero_w2 :: WALWriter where
  "zero_w2 = \<lparr>w_opts = zero_opts, w_first = 2, w_index = 1,
              w_segment = \<lparr>sw_index = 1, sw_size = 28, sw_pos = 28\<rparr>, w_cache = []\<rparr>"

definition zero_d2 :: disk where
  "zero_d2 = (mk_disk [] (Some TagsEmpty))
               \<lparr>trace := [Mkdir, OpenDir, Readdir, CreateTags, OpenSegW 0,
                           AppendSeg 0 dataType ''this is data'', CloseSegW 0, OpenSegW 1,
                           Remove 1, Remove 0, AppendSeg 1 dataType ''in the second segment'']\<rparr>"

text \<open>
  C10 does not hold of the code. With \<^verbatim>\<open>MaxSegments = 0\<close> the pass after the first
  rotation computes \<^verbatim>\<open>startAt = index - 0 + 1 = 2\<close>, above the index 1; the removal loop
  deletes segment 1, the segment just opened, and segment 0, and \<open>first\<close> becomes 2.
  All three calls return without an error.
\<close>

theorem zero_MaxSegments_run:
  "NewWithOptions zero_opts fresh_dir = (Inr zero_w0, zero_d0)
   \<and> Write zero_w0 ''this is data'' zero_d0 = (None, zero_w1, zero_d1)
   \<and> Write zero_w1 ''in the second segment'' zero_d1 = (None, zero_w2, zero_d2)
   \<and> w_first zero_w2 = 2 \<and> w_index zero_w2 = 1
   \<and> \<not> w_first zero_w2 \<le> w_index zero_w2
   \<and> segs zero_d2 = []"
  by (simp add: zero_opts_def zero_w0_def zero_d0_def zero_w1_def zero_d1_def zero_w2_def zero_d2_def
        fresh_dir_def rangeSegments_def writer_defs prune_defs)


section \<open>The invariant for a positive segment count\<close>

text \<open>
  The runs of a writer: a list of operations, each performed at a time and with failing
  calls of the environment's choosing. An operation that returns an error leaves the
  writer as the Go code has mutated it up to that point, and the run goes on.
\<close>

datatype wal_op = OpWrite string | OpWriteTag string | OpClose

fun apply_op :: "wal_op \<Rightarrow> WALWriter \<Rightarrow> disk \<Rightarrow> WALWriter \<times> disk" where
  "apply_op (OpWrite data) wal d = snd (Write wal data d)"
| "apply_op (OpWriteTag tag) wal d = snd (WriteTag wal tag d)"
| "apply_op OpClose wal d = (wal, snd (WALWriter_Close wal d))"

fun run_ops :: "(wal_op \<times> int \<times> (nat \<Rightarrow> nat option)) list \<Rightarrow> WALWriter \<Rightarrow> disk \<Rightarrow> WALWriter \<times> disk" where
  "run_ops [] wal d = (wal, d)"
| "run_ops ((op, now, fl) # ops) wal d =
     (case apply_op op wal (d\<lparr>clock := now, faults := fl\<rparr>) of (wal1, d1) \<Rightarrow> run_ops ops wal1 d1)"

lemma pruneSegments_writer:
  assumes "pruneSegments wal total' exo d = (r, wal1, d1)"
  shows "wal1 = wal
       \<or> (\<exists>s. wal1 = wal\<lparr>w_first := s, w_cache := filter (\<lambda>(tag, pos). \<not> Segment pos < s) (w_cache wal)\<rparr>)"
  using assms
  by (auto simp: pruneSegments_def Let_def split: prod.splits option.splits sum.splits if_splits)

lemma pruneSegments_cache:
  assumes p: "pruneSegments wal total' exo d = (r, wal1, d1)" and c: "cache_above_first wal"
  shows "cache_above_first wal1"
proof -
  from pruneSegments_writer [OF p] show ?thesis
  proof
    assume "wal1 = wal" with c show ?thesis by simp
  next
    assume "\<exists>s. wal1 = wal\<lparr>w_first := s, w_cache := filter (\<lambda>(tag, pos). \<not> Segment pos < s) (w_cache wal)\<rparr>"
    then show ?thesis by (auto simp: cache_above_first_def list_all_iff)
  qed
qed



text \<open>
  The invariant: \<open>first \<le> index\<close> and no cached tag before \<open>first\<close>, for options that
  keep at least one segment.
\<close>

definition writer_inv :: "WALWriter \<Rightarrow> bool" where
  "writer_inv wal =
     (w_first wal \<le> w_index wal \<and> 1 \<le> MaxSegments (w_opts wal) \<and> cache_above_first wal)"

lemma pruneSegments_inv:
  assumes p: "pruneSegments wal total' exo d = (r, wal1, d1)"
    and i: "w_first wal \<le> w_index wal" and t: "1 \<le> total'"
  shows "w_first wal1 \<le> w_index wal1 \<and> w_opts wal1 = w_opts wal"
proof -
  from pruneSegments_spec [OF p] obtain startAt where
    pt: "pruned_to wal startAt d wal1 d1"
    and c: "case exo of None \<Rightarrow> startAt = cutoff wal total'
            | Some ex \<Rightarrow> (startAt \<le> w_index wal \<or> startAt = cutoff wal total')
                     \<and> (\<forall>j. cutoff wal total' \<le> j \<and> j < startAt \<longrightarrow> expired_or_missing d ex j)"
    by blast
  from i t have "cutoff wal total' \<le> w_index wal" by (simp add: cutoff_def)
  with c have "startAt \<le> w_index wal" by (auto split: option.splits)
  with pt i show ?thesis by (auto simp: pruned_to_def)
qed

lemma rotateSegment_inv:
  assumes "rotateSegment wal d = (r, wr, dr)" and "w_first wal \<le> w_index wal"
  shows "w_first wr \<le> w_index wr \<and> w_opts wr = w_opts wal \<and> w_first wr = w_first wal
       \<and> w_cache wr = w_cache wal"
  using assms by (auto simp: rotateSegment_def Let_def split: prod.splits option.splits sum.splits)

lemma Write_inv:
  assumes w: "Write wal data d = (r, wal1, d1)" and inv: "writer_inv wal"
  shows "writer_inv wal1"
proof (cases "newSize wal data > SegmentSize (w_opts wal)")
  case False
  with w have "\<exists>s. wal1 = wal\<lparr>w_segment := s\<rparr>"
    by (auto simp: Write_def newSize_def Let_def split: prod.splits)
  with inv show ?thesis by (auto simp: writer_inv_def cache_above_first_def)
next
  case True
  obtain r0 wr dr where ro: "rotateSegment wal d = (r0, wr, dr)"
    by (cases "rotateSegment wal d") auto
  from rotateSegment_inv [OF ro] inv have wr: "writer_inv wr"
    by (simp add: writer_inv_def cache_above_first_def)
  show ?thesis
  proof (cases r0)
    case (Some e)
    with True ro w have "wal1 = wr" by (simp add: Write_def newSize_def Let_def)
    with wr show ?thesis by simp
  next
    case None
    obtain rp wp dp where pr: "pruneSegments wr (MaxSegments (w_opts wr)) (expiration wr dr) dr = (rp, wp, dp)"
      by (cases "pruneSegments wr (MaxSegments (w_opts wr)) (expiration wr dr) dr") auto
    from pruneSegments_inv [OF pr] pruneSegments_cache [OF pr] wr have wp: "writer_inv wp"
      by (simp add: writer_inv_def)
    from True ro None pr w have "wal1 = wp \<or> (\<exists>s. wal1 = wp\<lparr>w_segment := s\<rparr>)"
      by (auto simp: Write_def newSize_def expiration_def Let_def split: option.splits prod.splits)
    with wp show ?thesis by (auto simp: writer_inv_def cache_above_first_def)
  qed
qed

lemma set_AList_update: "set (AList.update k v al) \<subseteq> insert (k, v) (set al)"
  by (induction al) auto

lemma WriteTag_inv:
  assumes w: "WriteTag wal tag d = (r, wal1, d1)" and inv: "writer_inv wal"
  shows "writer_inv wal1"
proof -
  let ?c = "AList.update tag \<lparr>Segment = w_index wal, Offset = sw_pos (w_segment wal)\<rparr> (w_cache wal)"
  from w have "(\<exists>s. wal1 = wal\<lparr>w_segment := s\<rparr>) \<or> (\<exists>s. wal1 = wal\<lparr>w_segment := s, w_cache := ?c\<rparr>)"
    by (auto simp: WriteTag_def Let_def split: prod.splits option.splits)
  moreover have "list_all (\<lambda>(tag, pos). w_first wal \<le> Segment pos) ?c"
    using inv set_AList_update [of tag _ "w_cache wal"]
    by (fastforce simp: writer_inv_def cache_above_first_def list_all_iff)
  ultimately show ?thesis using inv by (auto simp: writer_inv_def cache_above_first_def)
qed

lemma rangeLoop_le:
  "f \<le> l \<Longrightarrow> rangeLoop xs (f, l) = (f1, l1) \<Longrightarrow> f1 \<le> l1"
proof (induction xs arbitrary: f l)
  case Nil
  then show ?case by simp
next
  case (Cons i xs)
  let ?f = "if f = -1 \<or> i < f then i else f"
  let ?l = "if l = -1 \<or> i > l then i else l"
  from Cons.prems(1) have "?f \<le> ?l" by auto
  moreover from Cons.prems(2) have "rangeLoop xs (?f, ?l) = (f1, l1)" by simp
  ultimately show ?case by (rule Cons.IH)
qed

lemma rangeSegments_le: "rangeSegments d = (Inr (f, l), d1) \<Longrightarrow> f \<le> l"
  by (auto simp: rangeSegments_def split: prod.splits option.splits if_splits
           dest: rangeLoop_le [rotated])

lemma NewWithOptions_first_le_index:
  assumes "NewWithOptions opts d = (Inr wal, d1)"
  shows "w_first wal \<le> w_index wal \<and> w_opts wal = opts \<and> w_cache wal = []"
proof -
  from assms obtain d0 f l d2 where rs: "rangeSegments d0 = (Inr (f, l), d2)"
    and w: "w_first wal = (if f = -1 then 0 else f)" "w_index wal = (if l = -1 then 0 else l)"
           "w_opts wal = opts" "w_cache wal = []"
    by (auto simp: NewWithOptions_def Let_def split: prod.splits option.splits sum.splits)
  from rangeSegments_le [OF rs] w show ?thesis by auto
qed

lemma apply_op_inv: "apply_op op wal d = (wal1, d1) \<Longrightarrow> writer_inv wal \<Longrightarrow> writer_inv wal1"
proof (cases op)
  case (OpWrite data)
  assume a: "apply_op op wal d = (wal1, d1)" and i: "writer_inv wal"
  from a OpWrite have "Write wal data d = (fst (Write wal data d), wal1, d1)" by (simp add: prod_eq_iff)
  from Write_inv [OF this i] show ?thesis .
next
  case (OpWriteTag tag)
  assume a: "apply_op op wal d = (wal1, d1)" and i: "writer_inv wal"
  from a OpWriteTag have "WriteTag wal tag d = (fst (WriteTag wal tag d), wal1, d1)" by (simp add: prod_eq_iff)
  from WriteTag_inv [OF this i] show ?thesis .
next
  case OpClose
  assume "apply_op op wal d = (wal1, d1)" "writer_inv wal"
  with OpClose show ?thesis by simp
qed

lemma run_ops_inv: "run_ops ops wal d = (wal1, d1) \<Longrightarrow> writer_inv wal \<Longrightarrow> writer_inv wal1"
proof (induction ops arbitrary: wal d)
  case Nil
  then show ?case by simp
next
  case (Cons x ops)
  obtain op now fl where x: "x = (op, now, fl)" by (cases x) auto
  obtain w2 d2 where ap: "apply_op op wal (d\<lparr>clock := now, faults := fl\<rparr>) = (w2, d2)"
    by (cases "apply_op op wal (d\<lparr>clock := now, faults := fl\<rparr>)") auto
  from apply_op_inv [OF ap Cons.prems(2)] have "writer_inv w2" .
  moreover from Cons.prems(1) x ap have "run_ops ops w2 d2 = (wal1, d1)" by simp
  ultimately show ?case by (rule Cons.IH [rotated])
qed

text \<open>
  For options with \<^verbatim>\<open>MaxSegments \<ge> 1\<close>, after \<^verbatim>\<open>NewWithOptions\<close> and after every operation of
  every run that follows, whatever the operations return, \<open>first \<le> index\<close> holds and
  every entry of the tag cache names a segment at or after \<open>first\<close>.
\<close>

theorem first_le_index_invariant:
  assumes "1 \<le> MaxSegments opts"
    and "NewWithOptions opts d = (Inr wal, d0)"
    and "run_ops ops wal d0 = (wal1, d1)"
  shows "w_first wal1 \<le> w_index wal1 \<and> cache_above_first wal1"
proof -
  from NewWithOptions_first_le_index [OF assms(2)] assms(1) have "writer_inv wal"
    by (simp add: writer_inv_def cache_above_first_def)
  from run_ops_inv [OF assms(3) this] show ?thesis by (simp add: writer_inv_def)
qed

definition example_ops :: "(wal_op \<times> int \<times> (nat \<Rightarrow> nat option)) list" where
  "example_ops =
     [(OpWrite ''this is data'', 0, \<lambda>k. None), (OpWrite ''in the second segment'', 5, \<lambda>k. None),
      (OpWriteTag ''commit'', 7, \<lambda>k. None), (OpClose, 9, \<lambda>k. None)]"

theorem first_le_index_invariant_witness:
  "1 \<le> MaxSegments one_opts
   \<and> NewWithOptions one_opts fresh_dir =
       (Inr rot_w0, rot_d0\<lparr>trace := [Mkdir, OpenDir, Readdir, CreateTags, OpenSegW 0]\<rparr>)
   \<and> w_first (fst (run_ops example_ops rot_w0
                      (rot_d0\<lparr>trace := [Mkdir, OpenDir, Readdir, CreateTags, OpenSegW 0]\<rparr>)))
     \<le> w_index (fst (run_ops example_ops rot_w0
                      (rot_d0\<lparr>trace := [Mkdir, OpenDir, Readdir, CreateTags, OpenSegW 0]\<rparr>)))
   \<and> cache_above_first (fst (run_ops example_ops rot_w0
                      (rot_d0\<lparr>trace := [Mkdir, OpenDir, Readdir, CreateTags, OpenSegW 0]\<rparr>)))"
proof -
  define d0 where "d0 = rot_d0\<lparr>trace := [Mkdir, OpenDir, Readdir, CreateTags, OpenSegW 0]\<rparr>"
  have m: "1 \<le> MaxSegments one_opts" by (simp add: one_opts_def)
  have n: "NewWithOptions one_opts fresh_dir = (Inr rot_w0, d0)"
    by (simp add: d0_def one_opts_def rot_w0_def rot_d0_def fresh_dir_def mk_disk_def sys_def
          rangeSegments_def writer_defs)
  have r: "run_ops example_ops rot_w0 d0
             = (fst (run_ops example_ops rot_w0 d0), snd (run_ops example_ops rot_w0 d0))"
    by simp
  from first_le_index_invariant [OF m n r] m n show ?thesis unfolding d0_def by simp
qed


end
